theory Spec2Isabelle
  imports Main "HOL-Library.Word" "HOL-Library.Signed_Division" "HOL-Library.Multiset"
begin

unbundle bit_operations_syntax

section \<open>ext3grep: shared conventions\<close>

text \<open>
  The development embeds the functions of \<^verbatim>\<open>ext3grep.cc\<close> that the reconstruction
  engine rests on. C integers of a fixed width are words (\<open>uint32_t\<close> and \<open>__le32\<close> are
  \<open>32 word\<close>, \<open>size_t\<close> and \<open>uint64_t\<close> are \<open>64 word\<close>, \<open>unsigned char\<close> is
  \<open>8 word\<close>). An \<open>assert\<close> that fails aborts the process; a function that can abort
  returns a sum whose left side names the abort.
\<close>

datatype error =
    Assertion_failed   \<comment> \<open>an \<open>assert(...)\<close> of the source does not hold\<close>
  | Wild_pointer       \<comment> \<open>the source would dereference something that is not an array\<close>
  | Division_by_zero   \<comment> \<open>the source would divide an \<open>int\<close> by zero\<close>

type_synonym 'a result = "error + 'a"

definition bind_result :: "'a result \<Rightarrow> ('a \<Rightarrow> 'b result) \<Rightarrow> 'b result" where
  "bind_result r f = (case r of Inl e \<Rightarrow> Inl e | Inr x \<Rightarrow> f x)"

section \<open>Bitmaps: \<open>get_bitmap_mask\<close>\<close>

text \<open>
  \<^verbatim>\<open>struct bitmap_ptr { int index; union { uint64_t mask; unsigned char byte[8]; }; };\<close>
  The union is stored as its 64-bit member. The tool runs on little-endian hosts (it
  reads the little-endian on-disk fields without conversion), so \<open>byte[k]\<close> is bits
  \<open>8k .. 8k+7\<close> of \<open>mask\<close>: \<open>get_byte\<close> reads it and \<open>set_byte\<close> assigns it.
\<close>

record bitmap_ptr =
  index :: int
  mask :: "64 word"

definition get_byte :: "nat \<Rightarrow> 64 word \<Rightarrow> 8 word" where
  "get_byte k m = ucast (drop_bit (8 * k) m)"

definition set_byte :: "nat \<Rightarrow> 8 word \<Rightarrow> 64 word \<Rightarrow> 64 word" where
  "set_byte k v m =
     (m AND NOT (push_bit (8 * k) 255)) OR push_bit (8 * k) (ucast v)"

text \<open>
  \<^verbatim>\<open>result.mask = 0; result.index = bit >> 6;
  result.byte[(bit & 63) >> 3] = 1 << (bit & 7);\<close>
  The shift \<open>1 << (bit & 7)\<close> is computed as an \<open>int\<close> and truncated to a byte by the
  assignment; \<open>bit >> 6\<close> is converted from \<open>unsigned int\<close> to \<open>int\<close>. The
  parameter \<open>bit\<close> of the source is \<open>bitnr\<close> here.
\<close>

definition get_bitmap_mask :: "32 word \<Rightarrow> bitmap_ptr" where
  "get_bitmap_mask bitnr =
     \<lparr> index = sint (drop_bit 6 bitnr),
       mask = set_byte (unat (drop_bit 3 (bitnr AND 63)))
                (ucast (push_bit (unat (bitnr AND 7)) (1 :: 32 word))) 0 \<rparr>"

text \<open>
  A bitmap in memory is a sequence of bytes, \<open>bm k\<close> being the byte at offset \<open>k\<close>. The
  source reads it through a \<open>uint64_t*\<close>: element \<open>i\<close> is the little-endian value of
  the eight bytes from offset \<open>8i\<close>. The test of a bit is
  \<^verbatim>\<open>bitmap[bmp.index] & bmp.mask\<close>, as in \<open>is_allocated\<close> and \<open>is_journal\<close>.
\<close>

definition load64 :: "(nat \<Rightarrow> 8 word) \<Rightarrow> nat \<Rightarrow> 64 word" where
  "load64 bm i =
     ucast (bm (8 * i)) OR push_bit 8 (ucast (bm (8 * i + 1)))
     OR push_bit 16 (ucast (bm (8 * i + 2))) OR push_bit 24 (ucast (bm (8 * i + 3)))
     OR push_bit 32 (ucast (bm (8 * i + 4))) OR push_bit 40 (ucast (bm (8 * i + 5)))
     OR push_bit 48 (ucast (bm (8 * i + 6))) OR push_bit 56 (ucast (bm (8 * i + 7)))"

definition bitmap_test :: "(nat \<Rightarrow> 8 word) \<Rightarrow> 32 word \<Rightarrow> bool" where
  "bitmap_test bm bitnr =
     (let bmp = get_bitmap_mask bitnr
      in load64 bm (nat (index bmp)) AND mask bmp \<noteq> 0)"

section \<open>The tagged vector of block numbers: \<open>blocknr_vector_type\<close>\<close>

text \<open>
  \<^verbatim>\<open>union blocknr_vector_type { size_t blocknr; uint32_t* blocknr_vector; ... };\<close>
  The union holds either an integer (\<open>0\<close> for the empty vector, or \<open>(b << 1) | 1\<close> for
  the single block \<open>b\<close>) or a pointer to a heap array whose element 0 is the number of
  blocks that follow. \<open>Blocknr w\<close> is the union holding the integer \<open>w\<close>;
  \<open>Blocknr_vector xs\<close> is the union holding a pointer to the array
  \<open>[length xs, xs ! 0, xs ! 1, ...]\<close>. A pointer that \<open>new\<close> returns is not null and is
  aligned, so read as an integer it is neither zero nor odd: \<open>empty\<close> is false and
  \<open>is_vector\<close> is true for it. An integer that is even and not zero would be read as a
  pointer by the source; no operation stores one, and reading through it is \<open>Wild_pointer\<close>.
\<close>

datatype blocknr_vector_type =
    Blocknr "64 word"
  | Blocknr_vector "32 word list"

definition empty :: "blocknr_vector_type \<Rightarrow> bool" where
  "empty bv = (bv = Blocknr 0)"

text \<open>\<^verbatim>\<open>bool is_vector(void) const { BVASSERT(!empty()); return !(blocknr & 1); }\<close>\<close>

definition is_vector :: "blocknr_vector_type \<Rightarrow> bool result" where
  "is_vector bv =
     (if empty bv then Inl Assertion_failed
      else case bv of
             Blocknr w \<Rightarrow> Inr (w AND 1 = 0)
           | Blocknr_vector xs \<Rightarrow> Inr True)"

text \<open>\<^verbatim>\<open>uint32_t size(void) const { return is_vector() ? blocknr_vector[0] : 1; }\<close>\<close>

definition size_bv :: "blocknr_vector_type \<Rightarrow> 32 word result" where
  "size_bv bv =
     bind_result (is_vector bv) (\<lambda>v.
       if v then (case bv of
                    Blocknr_vector xs \<Rightarrow> Inr (word_of_nat (length xs))
                  | Blocknr w \<Rightarrow> Inl Wild_pointer)
       else Inr 1)"

text \<open>
  \<^verbatim>\<open>uint32_t first_entry(void) const
    { return is_vector() ? blocknr_vector[1] : (blocknr >> 1); }\<close>
  The shift is done on the \<open>size_t\<close> and the result truncated to \<open>uint32_t\<close>.
\<close>

definition first_entry :: "blocknr_vector_type \<Rightarrow> 32 word result" where
  "first_entry bv =
     bind_result (is_vector bv) (\<lambda>v.
       if v then (case bv of
                    Blocknr_vector (x # xs) \<Rightarrow> Inr x
                  | Blocknr_vector [] \<Rightarrow> Inl Wild_pointer
                  | Blocknr w \<Rightarrow> Inl Wild_pointer)
       else (case bv of
               Blocknr w \<Rightarrow> Inr (ucast (drop_bit 1 w))
             | Blocknr_vector xs \<Rightarrow> Inl Wild_pointer))"

text \<open>
  \<^verbatim>\<open>uint32_t operator[](int index) const
    { BVASSERT(index >= 0 && (size_t)index < size());
      return (index == 0) ? first_entry() : blocknr_vector[index + 1]; }\<close>
\<close>

definition at_bv :: "blocknr_vector_type \<Rightarrow> nat \<Rightarrow> 32 word result" where
  "at_bv bv i =
     bind_result (size_bv bv) (\<lambda>n.
       if \<not> i < unat n then Inl Assertion_failed
       else if i = 0 then first_entry bv
       else (case bv of
               Blocknr_vector xs \<Rightarrow> if i < length xs then Inr (xs ! i) else Inl Wild_pointer
             | Blocknr w \<Rightarrow> Inl Wild_pointer))"

text \<open>
  \<^verbatim>\<open>void erase(void) { if (is_vector()) delete [] blocknr_vector; blocknr = 0; }\<close>
  It is only called on a vector that is not empty (\<open>is_vector\<close> asserts it).
\<close>

definition erase :: "blocknr_vector_type \<Rightarrow> blocknr_vector_type result" where
  "erase bv = bind_result (is_vector bv) (\<lambda>v. Inr (Blocknr 0))"

text \<open>
  \<open>push_back\<close>: on the empty vector \<open>blocknr = (bnr << 1) | 1\<close>, where the shift and
  the \<open>|\<close> are done on \<open>uint32_t\<close> operands and the 32-bit result is then widened to
  \<open>size_t\<close>; on an array a longer array is allocated; on a single value an array of two.
\<close>

definition push_back :: "32 word \<Rightarrow> blocknr_vector_type \<Rightarrow> blocknr_vector_type result" where
  "push_back bnr bv =
     (if empty bv then
        (if bnr = 0 then Inl Assertion_failed
         else Inr (Blocknr (ucast (push_bit 1 bnr OR 1))))
      else bind_result (is_vector bv) (\<lambda>v.
        if v then (case bv of
                     Blocknr_vector xs \<Rightarrow> Inr (Blocknr_vector (xs @ [bnr]))
                   | Blocknr w \<Rightarrow> Inl Wild_pointer)
        else (case bv of
                Blocknr w \<Rightarrow> Inr (Blocknr_vector [ucast (drop_bit 1 w), bnr])
              | Blocknr_vector xs \<Rightarrow> Inl Wild_pointer)))"

section \<open>Inodes and the block device\<close>

text \<open>
  The fields of an on-disk inode that the engine reads through \<open>inode.mode()\<close>,
  \<open>inode.atime()\<close>, \<open>inode.dtime()\<close>, \<open>inode.blocks()\<close> and \<open>inode.block()\<close>.
  \<open>block inode k\<close> is slot \<open>k\<close> of the pointer array: slots 0 to 11 are the direct
  blocks (\<open>EXT3_NDIR_BLOCKS = 12\<close>), slot 12 is the indirect block (\<open>EXT3_IND_BLOCK\<close>),
  13 the double indirect block and 14 the triple indirect block.
\<close>

record Inode =
  mode :: "16 word"
  atime :: "32 word"
  dtime :: "32 word"
  blocks :: "32 word"
  block :: "nat \<Rightarrow> 32 word"

definition EXT3_NDIR_BLOCKS :: nat where "EXT3_NDIR_BLOCKS = 12"
definition EXT3_IND_BLOCK :: nat where "EXT3_IND_BLOCK = 12"
definition EXT3_DIND_BLOCK :: nat where "EXT3_DIND_BLOCK = 13"
definition EXT3_TIND_BLOCK :: nat where "EXT3_TIND_BLOCK = 14"

definition is_directory :: "Inode \<Rightarrow> bool" where
  "is_directory inode = (mode inode AND 0xf000 = 0x4000)"

definition is_symlink :: "Inode \<Rightarrow> bool" where
  "is_symlink inode = (mode inode AND 0xf000 = 0xa000)"

text \<open>
  A directory entry as \<open>ext3_dir_entry_2\<close> lays it out. The source's field \<open>inode\<close> is
  \<open>d_inode\<close> here.
\<close>

record ext3_dir_entry_2 =
  d_inode :: "32 word"
  rec_len :: "16 word"
  name_len :: "8 word"
  file_type :: "8 word"
  name :: "8 word list"

text \<open>
  \<open>get_block\<close> seeks, reads one block into a buffer and asserts that the stream is still
  good. The callers then cast the buffer: to an array of \<open>__le32\<close> pointers (of
  \<open>block_size_ / 4\<close> elements), to an array of \<open>Inode\<close> (of
  \<open>block_size_ / sizeof(Inode)\<close> elements), or to directory entries found at byte
  offsets. A block that was read is the three views of its bytes; a device maps a block
  number to its block, or to \<open>None\<close> where the read fails.
\<close>

record block_buf =
  as_pointers :: "32 word list"
  as_inodes :: "Inode list"
  as_dir_entry :: "nat \<Rightarrow> ext3_dir_entry_2"

type_synonym device = "32 word \<Rightarrow> block_buf option"

definition get_block :: "device \<Rightarrow> 32 word \<Rightarrow> block_buf result" where
  "get_block dev blk = (case dev blk of None \<Rightarrow> Inl Assertion_failed | Some buf \<Rightarrow> Inr buf)"

section \<open>The indirect-block walker\<close>

text \<open>
  \<^verbatim>\<open>bool is_block_number(uint32_t block_number) { return block_number < block_count_; }\<close>
  The global \<open>block_count_\<close> of the source is the parameter \<open>block_count\<close>, written
  \<open>bc\<close> in the walkers.
\<close>

definition is_block_number :: "32 word \<Rightarrow> 32 word \<Rightarrow> bool" where
  "is_block_number block_count block_number = (block_number < block_count)"

definition direct_bit :: "32 word" where "direct_bit = 1"
definition indirect_bit :: "32 word" where "indirect_bit = 2"

text \<open>
  The walkers call \<open>action(blocknr, data)\<close> on the blocks they find. No action reads or
  writes what the walk reads, so a walk is the list of the block numbers it passes to the
  action, in call order, together with the \<open>bool\<close> it returns. A failed assertion inside
  the walk ends the process, whatever was passed before.

  The loop of \<open>iterate_over_all_blocks_of_indirect_block\<close> over the slots that are left:
  \<^verbatim>\<open>
  while (i < block_size_ / sizeof(__le32)) {
    if (block_ptr[i]) {
      if (!is_block_number(block_ptr[i])) break;
      action(block_ptr[i], data);
    }
    ++i;
  }
  return i < block_size_ / sizeof(__le32);\<close>
  The value returned is true exactly when the loop was left by \<open>break\<close>.
\<close>

fun indirect_block_loop :: "32 word \<Rightarrow> 32 word list \<Rightarrow> 32 word list \<times> bool" where
  "indirect_block_loop bc [] = ([], False)"
| "indirect_block_loop bc (p # ps) =
     (if p \<noteq> 0 then
        (if \<not> is_block_number bc p then ([], True)
         else (case indirect_block_loop bc ps of (bs, r) \<Rightarrow> (p # bs, r)))
      else indirect_block_loop bc ps)"

definition iterate_over_all_blocks_of_indirect_block ::
    "device \<Rightarrow> 32 word \<Rightarrow> 32 word \<Rightarrow> (32 word list \<times> bool) result" where
  "iterate_over_all_blocks_of_indirect_block dev bc blk =
     bind_result (get_block dev blk) (\<lambda>buf. Inr (indirect_block_loop bc (as_pointers buf)))"

text \<open>
  The loop of \<open>iterate_over_all_blocks_of_double_indirect_block\<close>: a slot that is a block
  number is passed to the action when \<open>indirect_bit\<close> is set, and walked as an indirect
  block when \<open>direct_bit\<close> is set; the loop is left when that walk returns true.
\<close>

fun double_indirect_block_loop ::
    "device \<Rightarrow> 32 word \<Rightarrow> 32 word \<Rightarrow> 32 word list \<Rightarrow> (32 word list \<times> bool) result" where
  "double_indirect_block_loop dev bc indirect_mask [] = Inr ([], False)"
| "double_indirect_block_loop dev bc indirect_mask (p # ps) =
     (if p \<noteq> 0 then
        (if \<not> is_block_number bc p then Inr ([], True)
         else
           let own = (if indirect_mask AND indirect_bit \<noteq> 0 then [p] else [])
           in if indirect_mask AND direct_bit \<noteq> 0 then
                bind_result (iterate_over_all_blocks_of_indirect_block dev bc p) (\<lambda>(bs, stop).
                  if stop then Inr (own @ bs, True)
                  else bind_result (double_indirect_block_loop dev bc indirect_mask ps)
                         (\<lambda>(cs, r). Inr (own @ bs @ cs, r)))
              else bind_result (double_indirect_block_loop dev bc indirect_mask ps)
                     (\<lambda>(cs, r). Inr (own @ cs, r)))
      else double_indirect_block_loop dev bc indirect_mask ps)"

definition iterate_over_all_blocks_of_double_indirect_block ::
    "device \<Rightarrow> 32 word \<Rightarrow> 32 word \<Rightarrow> 32 word \<Rightarrow> (32 word list \<times> bool) result" where
  "iterate_over_all_blocks_of_double_indirect_block dev bc blk indirect_mask =
     bind_result (get_block dev blk)
       (\<lambda>buf. double_indirect_block_loop dev bc indirect_mask (as_pointers buf))"

text \<open>
  The loop of \<open>iterate_over_all_blocks_of_tripple_indirect_block\<close>: as above, but every
  slot that is a block number is walked as a double indirect block, whatever the mask.
\<close>

fun tripple_indirect_block_loop ::
    "device \<Rightarrow> 32 word \<Rightarrow> 32 word \<Rightarrow> 32 word list \<Rightarrow> (32 word list \<times> bool) result" where
  "tripple_indirect_block_loop dev bc indirect_mask [] = Inr ([], False)"
| "tripple_indirect_block_loop dev bc indirect_mask (p # ps) =
     (if p \<noteq> 0 then
        (if \<not> is_block_number bc p then Inr ([], True)
         else
           let own = (if indirect_mask AND indirect_bit \<noteq> 0 then [p] else [])
           in bind_result (iterate_over_all_blocks_of_double_indirect_block dev bc p indirect_mask)
                (\<lambda>(bs, stop).
                  if stop then Inr (own @ bs, True)
                  else bind_result (tripple_indirect_block_loop dev bc indirect_mask ps)
                         (\<lambda>(cs, r). Inr (own @ bs @ cs, r))))
      else tripple_indirect_block_loop dev bc indirect_mask ps)"

definition iterate_over_all_blocks_of_tripple_indirect_block ::
    "device \<Rightarrow> 32 word \<Rightarrow> 32 word \<Rightarrow> 32 word \<Rightarrow> (32 word list \<times> bool) result" where
  "iterate_over_all_blocks_of_tripple_indirect_block dev bc blk indirect_mask =
     bind_result (get_block dev blk)
       (\<lambda>buf. tripple_indirect_block_loop dev bc indirect_mask (as_pointers buf))"

text \<open>
  \<open>iterate_over_all_blocks_of\<close>. The four stages of the source follow each other; each of
  the last three can end the walk by returning true.
  \<^verbatim>\<open>
  if (is_symlink(inode) && inode.blocks() == 0) return false;
  if ((indirect_mask & direct_bit))
    for (int i = 0; i < EXT3_NDIR_BLOCKS; ++i)
      if (block_ptr[i]) action(block_ptr[i], data);
  if (block_ptr[EXT3_IND_BLOCK]) {
    if ((indirect_mask & indirect_bit)) action(block_ptr[EXT3_IND_BLOCK], data);
    if ((indirect_mask & direct_bit))
      if (iterate_over_all_blocks_of_indirect_block(block_ptr[EXT3_IND_BLOCK], ...))
        return true;
  }
  if (block_ptr[EXT3_DIND_BLOCK]) { ... }
  if (block_ptr[EXT3_TIND_BLOCK]) { ... }
  return false;\<close>
\<close>

definition direct_blocks :: "Inode \<Rightarrow> 32 word \<Rightarrow> 32 word list" where
  "direct_blocks inode indirect_mask =
     (if indirect_mask AND direct_bit \<noteq> 0
      then filter (\<lambda>b. b \<noteq> 0) (map (block inode) [0..<EXT3_NDIR_BLOCKS])
      else [])"

definition ind_stage :: "device \<Rightarrow> 32 word \<Rightarrow> Inode \<Rightarrow> 32 word \<Rightarrow> (32 word list \<times> bool) result" where
  "ind_stage dev bc inode indirect_mask =
     (let p = block inode EXT3_IND_BLOCK in
      if p \<noteq> 0 then
        let own = (if indirect_mask AND indirect_bit \<noteq> 0 then [p] else [])
        in if indirect_mask AND direct_bit \<noteq> 0 then
             bind_result (iterate_over_all_blocks_of_indirect_block dev bc p)
               (\<lambda>(bs, stop). Inr (own @ bs, stop))
           else Inr (own, False)
      else Inr ([], False))"

definition dind_stage :: "device \<Rightarrow> 32 word \<Rightarrow> Inode \<Rightarrow> 32 word \<Rightarrow> (32 word list \<times> bool) result" where
  "dind_stage dev bc inode indirect_mask =
     (let p = block inode EXT3_DIND_BLOCK in
      if p \<noteq> 0 then
        let own = (if indirect_mask AND indirect_bit \<noteq> 0 then [p] else [])
        in bind_result (iterate_over_all_blocks_of_double_indirect_block dev bc p indirect_mask)
             (\<lambda>(bs, stop). Inr (own @ bs, stop))
      else Inr ([], False))"

definition tind_stage :: "device \<Rightarrow> 32 word \<Rightarrow> Inode \<Rightarrow> 32 word \<Rightarrow> (32 word list \<times> bool) result" where
  "tind_stage dev bc inode indirect_mask =
     (let p = block inode EXT3_TIND_BLOCK in
      if p \<noteq> 0 then
        let own = (if indirect_mask AND indirect_bit \<noteq> 0 then [p] else [])
        in bind_result (iterate_over_all_blocks_of_tripple_indirect_block dev bc p indirect_mask)
             (\<lambda>(bs, stop). Inr (own @ bs, stop))
      else Inr ([], False))"

definition iterate_over_all_blocks_of ::
    "device \<Rightarrow> 32 word \<Rightarrow> Inode \<Rightarrow> 32 word \<Rightarrow> (32 word list \<times> bool) result" where
  "iterate_over_all_blocks_of dev bc inode indirect_mask =
     (if is_symlink inode \<and> blocks inode = 0 then Inr ([], False)
      else
        bind_result (ind_stage dev bc inode indirect_mask) (\<lambda>(ibs, stop1).
          if stop1 then Inr (direct_blocks inode indirect_mask @ ibs, True)
          else bind_result (dind_stage dev bc inode indirect_mask) (\<lambda>(ds, stop2).
            if stop2 then Inr (direct_blocks inode indirect_mask @ ibs @ ds, True)
            else bind_result (tind_stage dev bc inode indirect_mask) (\<lambda>(ts, stop3).
              Inr (direct_blocks inode indirect_mask @ ibs @ ds @ ts, stop3)))))"

text \<open>The fifteen pointer slots of an inode (\<open>EXT3_N_BLOCKS = 15\<close>), as a set of values.\<close>

definition inode_pointers :: "Inode \<Rightarrow> 32 word set" where
  "inode_pointers inode = block inode ` {0..<15}"

section \<open>The journal index\<close>

text \<open>
  The three descriptor classes of the source. \<open>M_block\<close> is the block in the journal
  where the descriptor lives (\<open>Descriptor::block()\<close>), \<open>M_sequence\<close> its transaction
  sequence number. For a tag, \<open>M_blocknr\<close> is the file-system block that the journal
  block \<open>M_block\<close> is a copy of (\<open>DescriptorTag::block()\<close>).
\<close>

datatype descriptor_type_nt = dt_unknown | dt_tag | dt_revoke | dt_commit

datatype Descriptor =
    DescriptorTag (M_block: "32 word") (M_sequence: "32 word") (M_blocknr: "32 word")
      (M_flags: "32 word")
  | DescriptorRevoke (M_block: "32 word") (M_sequence: "32 word") (M_blocks: "32 word list")
  | DescriptorCommit (M_block: "32 word") (M_sequence: "32 word")

fun descriptor_type :: "Descriptor \<Rightarrow> descriptor_type_nt" where
  "descriptor_type (DescriptorTag b s n f) = dt_tag"
| "descriptor_type (DescriptorRevoke b s bs) = dt_revoke"
| "descriptor_type (DescriptorCommit b s) = dt_commit"

text \<open>
  \<^verbatim>\<open>struct AllDescriptorsPred { bool operator()(Descriptor* d1, Descriptor* d2) const
    { return d1->sequence() < d2->sequence(); } };\<close>
  \<open>std::sort\<close> with this predicate leaves \<open>all_descriptors\<close> in some order in which no
  descriptor comes before one of a smaller sequence number; descriptors of one sequence
  number may come in any order. \<open>sorted_descriptors\<close> says that of a vector.
\<close>

definition AllDescriptorsPred :: "Descriptor \<Rightarrow> Descriptor \<Rightarrow> bool" where
  "AllDescriptorsPred d1 d2 = (M_sequence d1 < M_sequence d2)"

definition sorted_descriptors :: "Descriptor list \<Rightarrow> bool" where
  "sorted_descriptors ds = sorted_wrt (\<lambda>d1 d2. \<not> AllDescriptorsPred d2 d1) ds"

record Transaction =
  T_block :: "32 word"
  T_sequence :: "32 word"
  T_committed :: bool
  T_descriptor :: "Descriptor list"

text \<open>
  The maps of the index. The keys are \<open>int\<close> in the source and are converted from
  \<open>uint32_t\<close> values, one key for each 32-bit value.
\<close>

record journal_index =
  sequence_transaction_map :: "32 word \<rightharpoonup> Transaction"
  block_to_descriptors_map :: "32 word \<rightharpoonup> Descriptor list"
  block_in_journal_to_descriptors_map :: "32 word \<rightharpoonup> Descriptor"

definition empty_index :: journal_index where
  "empty_index = \<lparr> sequence_transaction_map = Map.empty, block_to_descriptors_map = Map.empty,
                    block_in_journal_to_descriptors_map = Map.empty \<rparr>"

text \<open>
  \<open>add_block_descriptor\<close> appends the descriptor to the vector of the block, creating
  the vector when the block has none.
\<close>

definition add_block_descriptor ::
    "32 word \<Rightarrow> Descriptor \<Rightarrow> (32 word \<rightharpoonup> Descriptor list) \<Rightarrow> (32 word \<rightharpoonup> Descriptor list)" where
  "add_block_descriptor blk descriptor m =
     (case m blk of
        None \<Rightarrow> m(blk \<mapsto> [descriptor])
      | Some ds \<Rightarrow> m(blk \<mapsto> ds @ [descriptor]))"

text \<open>\<open>add_block_in_journal_descriptor\<close> inserts and asserts that the key was new.\<close>

definition add_block_in_journal_descriptor ::
    "Descriptor \<Rightarrow> (32 word \<rightharpoonup> Descriptor) \<Rightarrow> (32 word \<rightharpoonup> Descriptor) result" where
  "add_block_in_journal_descriptor descriptor m =
     (case m (M_block descriptor) of
        None \<Rightarrow> Inr (m(M_block descriptor \<mapsto> descriptor))
      | Some d \<Rightarrow> Inl Assertion_failed)"

text \<open>The virtual \<open>add_block_descriptors\<close> of the three classes.\<close>

fun add_block_descriptors :: "Descriptor \<Rightarrow> journal_index \<Rightarrow> journal_index result" where
  "add_block_descriptors (DescriptorTag b s n f) idx =
     bind_result
       (add_block_in_journal_descriptor (DescriptorTag b s n f)
          (block_in_journal_to_descriptors_map idx))
       (\<lambda>bij. Inr (idx\<lparr> block_to_descriptors_map :=
                          add_block_descriptor n (DescriptorTag b s n f)
                            (block_to_descriptors_map idx),
                        block_in_journal_to_descriptors_map := bij \<rparr>))"
| "add_block_descriptors (DescriptorRevoke b s bs) idx =
     bind_result
       (add_block_in_journal_descriptor (DescriptorRevoke b s bs)
          (block_in_journal_to_descriptors_map idx))
       (\<lambda>bij. Inr (idx\<lparr> block_to_descriptors_map :=
                          foldl (\<lambda>m blk. add_block_descriptor blk (DescriptorRevoke b s bs) m)
                            (block_to_descriptors_map idx) bs,
                        block_in_journal_to_descriptors_map := bij \<rparr>))"
| "add_block_descriptors (DescriptorCommit b s) idx =
     bind_result
       (add_block_in_journal_descriptor (DescriptorCommit b s)
          (block_in_journal_to_descriptors_map idx))
       (\<lambda>bij. Inr (idx\<lparr> block_in_journal_to_descriptors_map := bij \<rparr>))"

text \<open>
  The first loop of \<open>init_journal\<close> over the sorted \<open>all_descriptors\<close>. A tag or a
  revoke creates the transaction of its sequence number when there is none, is appended to
  it and is entered in the block maps. A commit marks an existing transaction as
  committed (\<open>set_committed\<close> asserts that it was not) and is dropped when it opens a
  transaction.
\<close>

definition transaction_of :: "Descriptor \<Rightarrow> (32 word \<rightharpoonup> Transaction) \<Rightarrow> Transaction" where
  "transaction_of d stm =
     (case stm (M_sequence d) of
        None \<Rightarrow> \<lparr> T_block = M_block d, T_sequence = M_sequence d, T_committed = False,
                  T_descriptor = [] \<rparr>
      | Some t \<Rightarrow> t)"

definition index_descriptor :: "Descriptor \<Rightarrow> journal_index \<Rightarrow> journal_index result" where
  "index_descriptor d idx =
     (let stm = sequence_transaction_map idx in
      if descriptor_type d = dt_commit then
        (case stm (M_sequence d) of
           None \<Rightarrow> Inr idx
         | Some t \<Rightarrow>
             if T_committed t then Inl Assertion_failed
             else Inr (idx\<lparr> sequence_transaction_map :=
                              stm(M_sequence d \<mapsto> t\<lparr> T_committed := True \<rparr>) \<rparr>))
      else
        let t = transaction_of d stm
        in add_block_descriptors d
             (idx\<lparr> sequence_transaction_map :=
                      stm(M_sequence d \<mapsto> t\<lparr> T_descriptor := T_descriptor t @ [d] \<rparr>) \<rparr>))"

fun index_descriptors :: "Descriptor list \<Rightarrow> journal_index \<Rightarrow> journal_index result" where
  "index_descriptors [] idx = Inr idx"
| "index_descriptors (d # ds) idx = bind_result (index_descriptor d idx) (index_descriptors ds)"

text \<open>
  \<^verbatim>\<open>static uint32_t find_largest_journal_sequence_number(int block) {
    ... if (iter == block_to_descriptors_map.end()) return 0;
    return (*iter->second.rbegin())->sequence(); }\<close>
  A vector in the map is never empty; \<open>rbegin\<close> of an empty one would be a wild read.
\<close>

definition find_largest_journal_sequence_number :: "journal_index \<Rightarrow> 32 word \<Rightarrow> 32 word result" where
  "find_largest_journal_sequence_number idx blk =
     (case block_to_descriptors_map idx blk of
        None \<Rightarrow> Inr 0
      | Some ds \<Rightarrow> if ds = [] then Inl Wild_pointer else Inr (M_sequence (last ds)))"

text \<open>
  The vector of a block in \<open>block_to_descriptors_map\<close>, empty when the block has no
  entry, and the entries that indexing one descriptor appends to it: a tag is appended to
  the vector of its file-system block, a revoke to the vector of each block it lists
  (once for each time it lists the block), a commit to none.
\<close>

definition vector_of :: "(32 word \<rightharpoonup> Descriptor list) \<Rightarrow> 32 word \<Rightarrow> Descriptor list" where
  "vector_of m blk = (case m blk of None \<Rightarrow> [] | Some ds \<Rightarrow> ds)"

definition descriptors_of :: "journal_index \<Rightarrow> 32 word \<Rightarrow> Descriptor list" where
  "descriptors_of idx blk = vector_of (block_to_descriptors_map idx) blk"

fun block_entries :: "32 word \<Rightarrow> Descriptor \<Rightarrow> Descriptor list" where
  "block_entries blk (DescriptorTag b s n f) = (if n = blk then [DescriptorTag b s n f] else [])"
| "block_entries blk (DescriptorRevoke b s bs) =
     map (\<lambda>x. DescriptorRevoke b s bs) (filter (\<lambda>x. x = blk) bs)"
| "block_entries blk (DescriptorCommit b s) = []"

text \<open>
  Where the inodes are: \<open>inode_to_block\<close> gives the block of the inode table that holds
  an inode, \<open>block_to_inode\<close> the number of the first inode in a block of the inode table,
  and \<open>is_inode\<close> says whether a block belongs to an inode table. They are computed from
  the group descriptor table; here they are taken as given, and what is proved holds for
  every choice of them. The inodes as they are on disk now are read through \<open>get_inode\<close>
  from the globals \<open>groups_\<close>, \<open>block_size_\<close>, \<open>inodes_per_group_\<close> and \<open>all_inodes\<close>;
  \<open>all_inodes tables group\<close> is the array of \<open>inodes_per_group_\<close> inodes that
  \<open>load_meta_data\<close> reads for the group when it is first used, \<open>None\<close> when that read
  fails (\<open>load_inodes\<close> ends with \<open>assert(device.good())\<close>), and
  \<open>inode_bitmap tables group\<close> is the inode bitmap of the group that it reads, as bytes.
\<close>

record inode_tables =
  inode_to_block :: "int \<Rightarrow> 32 word"
  block_to_inode :: "32 word \<Rightarrow> int"
  is_inode :: "32 word \<Rightarrow> bool"
  groups :: int
  block_size :: int
  inodes_per_group :: int
  all_inodes :: "int \<Rightarrow> Inode list option"
  inode_bitmap :: "int \<Rightarrow> nat \<Rightarrow> 8 word"

text \<open>
  \<^verbatim>\<open>inline Inode& get_inode(int inode) {
    int group = (inode - 1) / inodes_per_group_;
    unsigned int bit = inode - 1 - group * inodes_per_group_;
    assert(bit < 8U * block_size_);
    if (block_bitmap[group] == NULL) load_meta_data(group);
    return all_inodes[group][bit]; }\<close>
  The division of two \<open>int\<close> truncates towards zero (\<open>sdiv\<close>), so for an inode number
  below 1 the remainder is zero or negative; a negative one becomes a 32-bit value near
  \<open>2^32\<close> in \<open>bit\<close>, and the assertion fails. \<open>8U * block_size_\<close> is computed in
  \<open>unsigned int\<close>. The arrays \<open>block_bitmap\<close> and \<open>all_inodes\<close> have \<open>groups_\<close>
  elements and \<open>all_inodes[group]\<close> has \<open>inodes_per_group_\<close>.
\<close>

definition get_inode :: "inode_tables \<Rightarrow> int \<Rightarrow> Inode result" where
  "get_inode tables inode =
     (if inodes_per_group tables = 0 then Inl Division_by_zero
      else
        let group = (inode - 1) sdiv inodes_per_group tables;
            bitnr = (word_of_int (inode - 1 - group * inodes_per_group tables) :: 32 word)
        in if \<not> bitnr < 8 * word_of_int (block_size tables) then Inl Assertion_failed
           else if group < 0 \<or> groups tables \<le> group then Inl Wild_pointer
           else (case all_inodes tables group of
                   None \<Rightarrow> Inl Assertion_failed
                 | Some inodes \<Rightarrow>
                     if unat bitnr < length inodes then Inr (inodes ! unat bitnr)
                     else Inl Wild_pointer))"

text \<open>
  The second loop of \<open>init_journal\<close>. \<open>directory_inode_action\<close> stores the inode number
  under the block, replacing what was there. For every tag of a block of an inode table,
  the copy in the journal is read and each inode in it is looked at
  (\<open>sizeof(Inode)\<close> equals \<open>inode_size_\<close>, so the slots are the inodes):
  \<^verbatim>\<open>
  for (unsigned int i = 0; i < block_size_ / sizeof(Inode); ++i, ++inode_number) {
    if (!is_directory(inode[i])) continue;
    if (inode[i].dtime() != 0 || inode[i].atime() == 0 || inode[i].block()[0] == 0) continue;
    bool reused_or_corrupted_indirect_block7 =
      iterate_over_all_blocks_of(inode[i], directory_inode_action, &inode_number);
    ... }\<close>
  The value returned by the walk only triggers a printed note.
\<close>

definition directory_inode_action :: "32 word \<Rightarrow> int \<Rightarrow> (32 word \<rightharpoonup> int) \<Rightarrow> (32 word \<rightharpoonup> int)" where
  "directory_inode_action blocknr inode_number m = m(blocknr \<mapsto> inode_number)"

definition live_directory_copy :: "Inode \<Rightarrow> bool" where
  "live_directory_copy inode =
     (is_directory inode \<and> \<not> (dtime inode \<noteq> 0 \<or> atime inode = 0 \<or> block inode 0 = 0))"

fun scan_inode_copies ::
    "device \<Rightarrow> 32 word \<Rightarrow> Inode list \<Rightarrow> int \<Rightarrow> (32 word \<rightharpoonup> int) \<Rightarrow> (32 word \<rightharpoonup> int) result" where
  "scan_inode_copies dev bc [] inode_number m = Inr m"
| "scan_inode_copies dev bc (inode # rest) inode_number m =
     (if \<not> live_directory_copy inode then scan_inode_copies dev bc rest (inode_number + 1) m
      else bind_result (iterate_over_all_blocks_of dev bc inode direct_bit) (\<lambda>(bs, reused).
             scan_inode_copies dev bc rest (inode_number + 1)
               (foldl (\<lambda>m blocknr. directory_inode_action blocknr inode_number m) m bs)))"

fun index_directory_inodes ::
    "inode_tables \<Rightarrow> device \<Rightarrow> 32 word \<Rightarrow> Descriptor list \<Rightarrow> (32 word \<rightharpoonup> int) \<Rightarrow>
       (32 word \<rightharpoonup> int) result" where
  "index_directory_inodes tables dev bc [] m = Inr m"
| "index_directory_inodes tables dev bc (d # ds) m =
     (if descriptor_type d \<noteq> dt_tag then index_directory_inodes tables dev bc ds m
      else if is_inode tables (M_blocknr d) then
        bind_result (get_block dev (M_block d)) (\<lambda>buf.
          bind_result
            (scan_inode_copies dev bc (as_inodes buf) (block_to_inode tables (M_blocknr d)) m)
            (index_directory_inodes tables dev bc ds))
      else index_directory_inodes tables dev bc ds m)"

text \<open>
  The calls of \<open>directory_inode_action\<close> that one inode copy and one tag give rise to, in
  call order, as pairs of block and inode number. They serve to say which tag wrote an
  entry of \<open>block_to_dir_inode_map\<close>.
\<close>

definition copy_writes :: "device \<Rightarrow> 32 word \<Rightarrow> Inode \<Rightarrow> 32 word list" where
  "copy_writes dev bc inode =
     (if live_directory_copy inode then
        (case iterate_over_all_blocks_of dev bc inode direct_bit of
           Inr (bs, reused) \<Rightarrow> bs
         | Inl e \<Rightarrow> [])
      else [])"

fun copies_writes :: "device \<Rightarrow> 32 word \<Rightarrow> Inode list \<Rightarrow> int \<Rightarrow> (32 word \<times> int) list" where
  "copies_writes dev bc [] inode_number = []"
| "copies_writes dev bc (inode # rest) inode_number =
     map (\<lambda>b. (b, inode_number)) (copy_writes dev bc inode)
       @ copies_writes dev bc rest (inode_number + 1)"

definition tag_writes :: "inode_tables \<Rightarrow> device \<Rightarrow> 32 word \<Rightarrow> Descriptor \<Rightarrow> (32 word \<times> int) list" where
  "tag_writes tables dev bc d =
     (if descriptor_type d = dt_tag \<and> is_inode tables (M_blocknr d) then
        (case dev (M_block d) of
           Some buf \<Rightarrow> copies_writes dev bc (as_inodes buf) (block_to_inode tables (M_blocknr d))
         | None \<Rightarrow> [])
      else [])"

section \<open>Historical copies of an inode\<close>

text \<open>
  \<open>get_inodes_from_journal\<close> runs over the descriptors of the inode's table block from
  the last to the first, skips those that are not tags, and copies the inode out of each
  journal block. \<open>journal_copies\<close> is that loop over the descriptors still to be visited;
  \<open>slot\<close> is the index of the inode in its block, \<open>inode - block_to_inode(block)\<close>.
\<close>

fun journal_copies ::
    "device \<Rightarrow> 32 word \<Rightarrow> int \<Rightarrow> Descriptor list \<Rightarrow> (32 word \<times> Inode) list result" where
  "journal_copies dev blk slot [] = Inr []"
| "journal_copies dev blk slot (d # ds) =
     (if descriptor_type d \<noteq> dt_tag then journal_copies dev blk slot ds
      else if M_blocknr d \<noteq> blk then Inl Assertion_failed
      else bind_result (get_block dev (M_block d)) (\<lambda>buf.
             if 0 \<le> slot \<and> nat slot < length (as_inodes buf) then
               bind_result (journal_copies dev blk slot ds)
                 (\<lambda>rest. Inr ((M_sequence d, as_inodes buf ! nat slot) # rest))
             else Inl Wild_pointer))"

definition get_inodes_from_journal ::
    "inode_tables \<Rightarrow> device \<Rightarrow> journal_index \<Rightarrow> int \<Rightarrow> (32 word \<times> Inode) list result" where
  "get_inodes_from_journal tables dev idx inode =
     (let blk = inode_to_block tables inode;
          slot = inode - block_to_inode tables blk
      in case block_to_descriptors_map idx blk of
           None \<Rightarrow> Inr []
         | Some descriptors \<Rightarrow> journal_copies dev blk slot (rev descriptors))"

text \<open>
  To say what the scan returns: \<open>tags_of\<close> are the tags of a file-system block among
  the descriptors, in their order; \<open>copy_of_tag\<close> says that a pair is the sequence
  number of a tag together with the inode found at the slot in the journal block of that
  tag; \<open>references_block\<close> says that a descriptor is entered in the vector of a block,
  as a tag of the block or as a revoke that lists it.
\<close>

definition tags_of :: "32 word \<Rightarrow> Descriptor list \<Rightarrow> Descriptor list" where
  "tags_of blk ds = filter (\<lambda>d. descriptor_type d = dt_tag \<and> M_blocknr d = blk) ds"

definition copy_of_tag :: "device \<Rightarrow> int \<Rightarrow> Descriptor \<Rightarrow> 32 word \<times> Inode \<Rightarrow> bool" where
  "copy_of_tag dev slot d sc =
     (case dev (M_block d) of
        None \<Rightarrow> False
      | Some buf \<Rightarrow> 0 \<le> slot \<and> nat slot < length (as_inodes buf) \<and>
                    sc = (M_sequence d, as_inodes buf ! nat slot))"

fun references_block :: "32 word \<Rightarrow> Descriptor \<Rightarrow> bool" where
  "references_block blk (DescriptorTag b s n f) = (n = blk)"
| "references_block blk (DescriptorRevoke b s bs) = (blk \<in> set bs)"
| "references_block blk (DescriptorCommit b s) = False"

datatype get_undeleted_inode_type =
  ui_no_inode | ui_real_inode | ui_journal_inode | ui_inode_too_old

text \<open>
  The loop of \<open>get_undeleted_inode\<close> over the copies. \<open>commandline_after\<close> is the value
  of \<open>--after\<close>, 0 when the option is not given. The result is the kind, the inode
  stored through the reference parameter and the sequence number stored through the
  pointer parameter, if any.
  \<^verbatim>\<open>
  if (journal_inode.dtime() == 0) { inode = journal_inode; ...; return ui_journal_inode; }
  else if (commandline_after && (time_t)journal_inode.dtime() < commandline_after)
    return ui_inode_too_old;\<close>
\<close>

definition inode_too_old :: "int \<Rightarrow> Inode \<Rightarrow> bool" where
  "inode_too_old commandline_after journal_inode =
     (commandline_after \<noteq> 0 \<and> uint (dtime journal_inode) < commandline_after)"

fun first_undeleted_copy ::
    "int \<Rightarrow> (32 word \<times> Inode) list \<Rightarrow>
       get_undeleted_inode_type \<times> Inode option \<times> 32 word option" where
  "first_undeleted_copy commandline_after [] = (ui_no_inode, None, None)"
| "first_undeleted_copy commandline_after ((sequence, journal_inode) # rest) =
     (if dtime journal_inode = 0 then (ui_journal_inode, Some journal_inode, Some sequence)
      else if inode_too_old commandline_after journal_inode then (ui_inode_too_old, None, None)
      else first_undeleted_copy commandline_after rest)"

definition get_undeleted_inode ::
    "inode_tables \<Rightarrow> device \<Rightarrow> journal_index \<Rightarrow> int \<Rightarrow> int \<Rightarrow>
       (get_undeleted_inode_type \<times> Inode option \<times> 32 word option) result" where
  "get_undeleted_inode tables dev idx commandline_after inodenr =
     bind_result (get_inode tables inodenr) (\<lambda>real_inode.
       if dtime real_inode = 0 then Inr (ui_real_inode, Some real_inode, None)
       else bind_result (get_inodes_from_journal tables dev idx inodenr)
              (\<lambda>inodes. Inr (first_undeleted_copy commandline_after inodes)))"

section \<open>Stage 2: one block for each directory inode\<close>

text \<open>
  \<^verbatim>\<open>bool is_allocated(int inode) {
    int group = (inode - 1) / inodes_per_group_;
    if (!block_bitmap[group]) load_meta_data(group);
    unsigned int bit = inode - 1 - group * inodes_per_group_;
    assert(bit < 8U * block_size_);
    struct bitmap_ptr bmp = get_bitmap_mask(bit);
    return (inode_bitmap[group][bmp.index] & bmp.mask); }\<close>
\<close>

definition is_allocated :: "inode_tables \<Rightarrow> int \<Rightarrow> bool result" where
  "is_allocated tables inode =
     (if inodes_per_group tables = 0 then Inl Division_by_zero
      else
        let group = (inode - 1) sdiv inodes_per_group tables
        in if group < 0 \<or> groups tables \<le> group then Inl Wild_pointer
           else (case all_inodes tables group of
                   None \<Rightarrow> Inl Assertion_failed
                 | Some inodes \<Rightarrow>
                     let bitnr = (word_of_int (inode - 1 - group * inodes_per_group tables) :: 32 word)
                     in if \<not> bitnr < 8 * word_of_int (block_size tables) then Inl Assertion_failed
                        else Inr (bitmap_test (inode_bitmap tables group) bitnr)))"

text \<open>
  \<^verbatim>\<open>void blocknr_vector_type::remove(uint32_t blknr) {
    assert(is_vector());
    uint32_t size = blocknr_vector[0];
    int found = 0;
    for (uint32_t j = 1; j <= size; ++j)
      if (blocknr_vector[j] == blknr) { found = j; break; }
    assert(found);
    blocknr_vector[found] = blocknr_vector[size];
    blocknr_vector[0] = --size;
    if (size == 1) {
      int last_block = blocknr_vector[1];
      delete [] blocknr_vector;
      blocknr = (last_block << 1) | 1; } }\<close>
  The first entry equal to \<open>blknr\<close> is overwritten with the last entry and the array is
  shortened by one. When one entry is left it is stored as a single value; here the shift
  and the \<open>|\<close> are done on the \<open>int\<close> \<open>last_block\<close>, and the \<open>int\<close> result is converted
  to \<open>size_t\<close>, which extends its sign bit.
\<close>

definition remove_bv :: "32 word \<Rightarrow> blocknr_vector_type \<Rightarrow> blocknr_vector_type result" where
  "remove_bv blknr bv =
     bind_result (is_vector bv) (\<lambda>v.
       if \<not> v then Inl Assertion_failed
       else (case bv of
               Blocknr w \<Rightarrow> Inl Wild_pointer
             | Blocknr_vector xs \<Rightarrow>
                 let found = length (takeWhile (\<lambda>x. x \<noteq> blknr) xs)
                 in if found = length xs then Inl Assertion_failed
                    else
                      let ys = butlast (xs[found := last xs])
                      in if length ys = 1
                         then Inr (Blocknr (scast (push_bit 1 (hd ys) OR 1 :: 32 word)))
                         else Inr (Blocknr_vector ys)))"

text \<open>
  The block numbers that a vector holds, as \<open>operator[]\<close> gives them for the indices
  below \<open>size()\<close>, and the shapes of the union that the operations produce: the empty
  vector, a single value (an odd integer), or an array of at least two blocks.
\<close>

definition entries :: "blocknr_vector_type \<Rightarrow> 32 word list" where
  "entries bv =
     (case bv of
        Blocknr w \<Rightarrow> if w = 0 then [] else [ucast (drop_bit 1 w)]
      | Blocknr_vector xs \<Rightarrow> xs)"

definition well_formed :: "blocknr_vector_type \<Rightarrow> bool" where
  "well_formed bv =
     (case bv of
        Blocknr w \<Rightarrow> w = 0 \<or> w AND 1 = 1
      | Blocknr_vector xs \<Rightarrow> 2 \<le> length xs \<and> length xs < 2 ^ 32)"

text \<open>
  The first loop of \<open>init_dir_inode_to_block_cache\<close> after stage 1, for one inode \<open>i\<close>
  whose vector in \<open>dir_inode_to_block_cache\<close> is \<open>bv\<close>:
  \<^verbatim>\<open>
  bool allocated = is_allocated(i);
  blocknr_vector_type const bv = dir_inode_to_block_cache[i];
  if (allocated) {
    Inode& inode = get_inode(i);
    if (is_directory(inode)) {
      uint32_t first_block = inode.block()[0];
      assert(first_block);
      if (bv.empty()) { std::cerr << "WARNING: ..."; continue; }
      int count = 0;
      uint32_t size = bv.size();
      for (uint32_t j = 0; j < size; ++j)
        if (bv[j] == first_block) { ++count; break; }
      assert(count == 1);
      dir_inode_to_block_cache[i].erase();
      dir_inode_to_block_cache[i].push_back(first_block); } }\<close>
  The rest of the body only counts. \<open>count_first_block bv first_block j k\<close> is the inner
  loop at index \<open>j\<close> with \<open>k\<close> indices to go.
\<close>

fun count_first_block :: "blocknr_vector_type \<Rightarrow> 32 word \<Rightarrow> nat \<Rightarrow> nat \<Rightarrow> int result" where
  "count_first_block bv first_block j 0 = Inr 0"
| "count_first_block bv first_block j (Suc k) =
     bind_result (at_bv bv j) (\<lambda>b.
       if b = first_block then Inr 1 else count_first_block bv first_block (Suc j) k)"

definition canonical_directory_block ::
    "inode_tables \<Rightarrow> int \<Rightarrow> blocknr_vector_type \<Rightarrow> blocknr_vector_type result" where
  "canonical_directory_block tables i bv =
     bind_result (is_allocated tables i) (\<lambda>allocated.
       if allocated then
         bind_result (get_inode tables i) (\<lambda>inode.
           if is_directory inode then
             let first_block = block inode 0
             in if first_block = 0 then Inl Assertion_failed
                else if empty bv then Inr bv
                else
                  bind_result (size_bv bv) (\<lambda>sz.
                  bind_result (count_first_block bv first_block 0 (unat sz)) (\<lambda>count.
                    if count \<noteq> 1 then Inl Assertion_failed
                    else bind_result (erase bv) (push_back first_block)))
           else Inr bv)
       else Inr bv)"

text \<open>
  The loop \<^verbatim>\<open>for (uint32_t i = 1; i <= inode_count_; ++i)\<close> over the cache; an iteration
  touches the vector of its own inode only. The inode numbers are below \<open>2^31\<close>, so that
  the conversion of \<open>i\<close> to the \<open>int\<close> parameter of \<open>is_allocated\<close> keeps the value.
\<close>

fun canonical_directory_blocks ::
    "inode_tables \<Rightarrow> nat list \<Rightarrow> (nat \<Rightarrow> blocknr_vector_type) \<Rightarrow>
       (nat \<Rightarrow> blocknr_vector_type) result" where
  "canonical_directory_blocks tables [] cache = Inr cache"
| "canonical_directory_blocks tables (i # rest) cache =
     bind_result (canonical_directory_block tables (int i) (cache i)) (\<lambda>bv.
       canonical_directory_blocks tables rest (cache(i := bv)))"

text \<open>
  The second loop resolves the inodes that still have several blocks. For one inode, the
  blocks are first read as \<open>DirectoryBlock\<close>s:
  \<^verbatim>\<open>
  std::list<DirectoryBlock> dirs(size);
  for (uint32_t j = 0; j < size; ++j, ++iter) iter->read_block(bv[j], iter);\<close>
  \<open>DirectoryBlock::read_block\<close> reads the block and asserts that it parses as a directory
  block; here it is a parameter that says for each block whether it returns or aborts.
  Of a \<open>DirectoryBlock\<close> only \<open>block()\<close> is used below, so \<open>dirs\<close> is the list of the
  block numbers.
\<close>

fun read_blocks ::
    "(32 word \<Rightarrow> unit result) \<Rightarrow> blocknr_vector_type \<Rightarrow> nat \<Rightarrow> nat \<Rightarrow> 32 word list result" where
  "read_blocks read_block bv j 0 = Inr []"
| "read_blocks read_block bv j (Suc k) =
     bind_result (at_bv bv j) (\<lambda>b.
     bind_result (read_block b) (\<lambda>u.
     bind_result (read_blocks read_block bv (Suc j) k) (\<lambda>bs. Inr (b # bs))))"

text \<open>
  The blocks of the journal are looked at first, up to the first block outside the
  journal:
  \<^verbatim>\<open>
  uint32_t highest_sequence = 0; int journal_block_count = 0; int total_block_count = 0;
  iter = dirs.begin();
  while (iter != dirs.end()) {
    ++total_block_count;
    if (is_journal(iter->block())) {
      ++journal_block_count;
      iter2 = block_in_journal_to_descriptors_map.find(iter->block());
      assert(iter2 != block_in_journal_to_descriptors_map.end());
      uint32_t sequence = iter2->second->sequence();
      highest_sequence = std::max(highest_sequence, sequence); }
    else break;
    ++iter; }
  bool need_keep_one_journal = (total_block_count == journal_block_count);\<close>
  \<open>is_journal\<close> is computed from the blocks of the journal inode; here it is a parameter.
\<close>

fun scan_journal_blocks ::
    "(32 word \<Rightarrow> bool) \<Rightarrow> (32 word \<rightharpoonup> Descriptor) \<Rightarrow> 32 word list \<Rightarrow> 32 word \<times> int \<times> int \<Rightarrow>
       (32 word \<times> int \<times> int) result" where
  "scan_journal_blocks is_journal in_journal_map [] (highest_sequence, journal_block_count, total_block_count) =
     Inr (highest_sequence, journal_block_count, total_block_count)"
| "scan_journal_blocks is_journal in_journal_map (b # dirs)
       (highest_sequence, journal_block_count, total_block_count) =
     (if is_journal b then
        (case in_journal_map b of
           None \<Rightarrow> Inl Assertion_failed
         | Some d \<Rightarrow>
             scan_journal_blocks is_journal in_journal_map dirs
               (max highest_sequence (M_sequence d), journal_block_count + 1,
                total_block_count + 1))
      else Inr (highest_sequence, journal_block_count, total_block_count + 1))"

text \<open>
  Then the blocks of the journal are removed, except, when all blocks are in the journal,
  those whose descriptor has the highest sequence number:
  \<^verbatim>\<open>
  iter = dirs.begin();
  while (iter != dirs.end()) {
    if (is_journal(iter->block())) {
      if (need_keep_one_journal) {
        iter2 = block_in_journal_to_descriptors_map.find(iter->block());
        if (iter2->second->sequence() == highest_sequence) { ++iter; continue; } }
      if (size > 1) dir_inode_to_block_cache[i].remove(iter->block());
      else dir_inode_to_block_cache[i].erase();
      --size;
      iter = dirs.erase(iter); }
    else ++iter; }\<close>
  The result is the list \<open>dirs\<close> that is left, the vector of the inode and \<open>size\<close>
  (\<open>sz\<close> here).
\<close>

fun prune_journal_blocks ::
    "(32 word \<Rightarrow> bool) \<Rightarrow> (32 word \<rightharpoonup> Descriptor) \<Rightarrow> bool \<Rightarrow> 32 word \<Rightarrow> 32 word list \<Rightarrow>
       blocknr_vector_type \<times> 32 word \<Rightarrow> (32 word list \<times> blocknr_vector_type \<times> 32 word) result" where
  "prune_journal_blocks is_journal in_journal_map need_keep_one_journal highest_sequence [] (bv, sz) =
     Inr ([], bv, sz)"
| "prune_journal_blocks is_journal in_journal_map need_keep_one_journal highest_sequence (b # dirs) (bv, sz) =
     (if is_journal b then
        (if need_keep_one_journal \<and> in_journal_map b = None then Inl Wild_pointer
         else if need_keep_one_journal \<and> map_option M_sequence (in_journal_map b) = Some highest_sequence then
           bind_result
             (prune_journal_blocks is_journal in_journal_map need_keep_one_journal highest_sequence dirs (bv, sz))
             (\<lambda>(kept, bv', sz'). Inr (b # kept, bv', sz'))
         else
           bind_result (if 1 < sz then remove_bv b bv else erase bv) (\<lambda>bv'.
             prune_journal_blocks is_journal in_journal_map need_keep_one_journal highest_sequence dirs
               (bv', sz - 1)))
      else
        bind_result
          (prune_journal_blocks is_journal in_journal_map need_keep_one_journal highest_sequence dirs (bv, sz))
          (\<lambda>(kept, bv', sz'). Inr (b # kept, bv', sz')))"

text \<open>
  The sequence number of the descriptor that \<open>block_in_journal_to_descriptors_map\<close>
  holds for a block of the journal, 0 where it holds none; it serves to say which blocks
  are kept.
\<close>

definition sequence_of :: "(32 word \<rightharpoonup> Descriptor) \<Rightarrow> 32 word \<Rightarrow> 32 word" where
  "sequence_of in_journal_map b = (case in_journal_map b of None \<Rightarrow> 0 | Some d \<Rightarrow> M_sequence d)"

definition remove_journal_blocks ::
    "(32 word \<Rightarrow> bool) \<Rightarrow> (32 word \<rightharpoonup> Descriptor) \<Rightarrow> 32 word list \<Rightarrow>
       blocknr_vector_type \<times> 32 word \<Rightarrow> (32 word list \<times> blocknr_vector_type \<times> 32 word) result" where
  "remove_journal_blocks is_journal in_journal_map dirs bvs =
     bind_result (scan_journal_blocks is_journal in_journal_map dirs (0, 0, 0))
       (\<lambda>(highest_sequence, journal_block_count, total_block_count).
          prune_journal_blocks is_journal in_journal_map (total_block_count = journal_block_count)
            highest_sequence dirs bvs)"

text \<open>
  The body of the second loop for one inode. What follows the removal of the journal
  blocks when several blocks are left (the choice by
  \<open>find_largest_journal_sequence_number\<close> and the removal of identical blocks) is the
  parameter \<open>later\<close>.
  \<^verbatim>\<open>
  blocknr_vector_type const bv = dir_inode_to_block_cache[i];
  if (bv.empty()) continue;
  uint32_t size = bv.size();
  if (size == 1) continue;
  ... // read the blocks, remove the journal blocks
  if (dirs.size() == 1) { ++jsinc; continue; }
  assert(dirs.size() > 0);
  assert(size == dirs.size());\<close>
\<close>

definition resolve_shared_inode ::
    "(32 word \<Rightarrow> bool) \<Rightarrow> (32 word \<rightharpoonup> Descriptor) \<Rightarrow> (32 word \<Rightarrow> unit result) \<Rightarrow>
       (32 word list \<Rightarrow> blocknr_vector_type \<Rightarrow> blocknr_vector_type result) \<Rightarrow>
       blocknr_vector_type \<Rightarrow> blocknr_vector_type result" where
  "resolve_shared_inode is_journal in_journal_map read_block later bv =
     (if empty bv then Inr bv
      else
        bind_result (size_bv bv) (\<lambda>sz.
          if sz = 1 then Inr bv
          else
            bind_result (read_blocks read_block bv 0 (unat sz)) (\<lambda>dirs.
            bind_result (remove_journal_blocks is_journal in_journal_map dirs (bv, sz)) (\<lambda>(dirs', bv', sz').
              if length dirs' = 1 then Inr bv'
              else if length dirs' = 0 then Inl Assertion_failed
              else if unat sz' \<noteq> length dirs' then Inl Assertion_failed
              else later dirs' bv'))))"

fun resolve_shared_inodes ::
    "(32 word \<Rightarrow> bool) \<Rightarrow> (32 word \<rightharpoonup> Descriptor) \<Rightarrow> (32 word \<Rightarrow> unit result) \<Rightarrow>
       (32 word list \<Rightarrow> blocknr_vector_type \<Rightarrow> blocknr_vector_type result) \<Rightarrow>
       nat list \<Rightarrow> (nat \<Rightarrow> blocknr_vector_type) \<Rightarrow> (nat \<Rightarrow> blocknr_vector_type) result" where
  "resolve_shared_inodes is_journal in_journal_map read_block later [] cache = Inr cache"
| "resolve_shared_inodes is_journal in_journal_map read_block later (i # rest) cache =
     bind_result (resolve_shared_inode is_journal in_journal_map read_block later (cache i)) (\<lambda>bv.
       resolve_shared_inodes is_journal in_journal_map read_block later rest (cache(i := bv)))"

text \<open>
  \<open>init_dir_inode_to_block_cache\<close> from the vectors that stage 1 found to the end: the
  two loops over the inodes 1 to \<open>inode_count_\<close>.
\<close>

definition init_dir_inode_to_block_cache ::
    "inode_tables \<Rightarrow> (32 word \<Rightarrow> bool) \<Rightarrow> (32 word \<rightharpoonup> Descriptor) \<Rightarrow> (32 word \<Rightarrow> unit result) \<Rightarrow>
       (32 word list \<Rightarrow> blocknr_vector_type \<Rightarrow> blocknr_vector_type result) \<Rightarrow>
       nat \<Rightarrow> (nat \<Rightarrow> blocknr_vector_type) \<Rightarrow> (nat \<Rightarrow> blocknr_vector_type) result" where
  "init_dir_inode_to_block_cache tables is_journal in_journal_map read_block later inode_count cache =
     bind_result (canonical_directory_blocks tables [1..<Suc inode_count] cache)
       (resolve_shared_inodes is_journal in_journal_map read_block later [1..<Suc inode_count])"

section \<open>Example images\<close>

text \<open>
  Small devices and inodes on which the functions are run. A block that only serves as an
  array of pointers has no inodes and empty directory entries in its other views.
\<close>

definition no_dir_entry :: "nat \<Rightarrow> ext3_dir_entry_2" where
  "no_dir_entry off = \<lparr> d_inode = 0, rec_len = 0, name_len = 0, file_type = 0, name = [] \<rparr>"

definition pointer_block :: "32 word list \<Rightarrow> block_buf" where
  "pointer_block ps = \<lparr> as_pointers = ps, as_inodes = [], as_dir_entry = no_dir_entry \<rparr>"

definition no_blocks :: "nat \<Rightarrow> 32 word" where
  "no_blocks k = 0"

definition no_device :: device where
  "no_device blk = None"

text \<open>
  A regular file whose indirect pointer is 17, block 17 of a device with 1024-byte blocks
  holding the pointers 42, \<open>0x7FFFFFFF\<close>, 19 and then zeros.
\<close>

definition reuse_inode :: Inode where
  "reuse_inode = \<lparr> mode = 0x81a4, atime = 1, dtime = 0, blocks = 4,
                    block = no_blocks (12 := 17) \<rparr>"

definition reuse_device :: device where
  "reuse_device = no_device (17 := Some (pointer_block (42 # 0x7FFFFFFF # 19 # replicate 253 0)))"

text \<open>
  The same indirect block reached through deeper levels, next to sound blocks. Block 22
  and block 25 are sound indirect blocks (holding 42 and 43). Block 18 is a double
  indirect block whose first slot is block 17; block 20 is a triple indirect block whose
  first slot is block 18. Block 21 is a double indirect block with the slot
  \<open>0x7FFFFFFF\<close> after the sound block 22. Block 26 is a sound double indirect block
  and block 23 a triple indirect block with the slot \<open>0x7FFFFFFF\<close> after it. Block 24
  is a double indirect block with holes before and between its slots 22 and 25, and block
  27 a triple indirect block with holes around its slots 26 and 24.
\<close>

definition nested_device :: device where
  "nested_device = reuse_device
     (18 := Some (pointer_block (17 # 19 # replicate 254 0)),
      20 := Some (pointer_block (18 # 19 # replicate 254 0)),
      22 := Some (pointer_block (42 # replicate 255 0)),
      25 := Some (pointer_block (43 # replicate 255 0)),
      21 := Some (pointer_block (22 # 0x7FFFFFFF # 19 # replicate 253 0)),
      26 := Some (pointer_block (22 # replicate 255 0)),
      23 := Some (pointer_block (26 # 0x7FFFFFFF # 19 # replicate 253 0)),
      24 := Some (pointer_block (0 # 22 # 0 # 25 # replicate 252 0)),
      27 := Some (pointer_block (0 # 26 # 0 # 24 # replicate 252 0)))"

definition dind_inode :: Inode where
  "dind_inode = \<lparr> mode = 0x81a4, atime = 1, dtime = 0, blocks = 6,
                   block = no_blocks (13 := 18) \<rparr>"

definition tind_inode :: Inode where
  "tind_inode = \<lparr> mode = 0x81a4, atime = 1, dtime = 0, blocks = 8,
                   block = no_blocks (14 := 20) \<rparr>"

text \<open>A regular file whose first direct pointer lies beyond a device of 100000 blocks.\<close>

definition wild_direct_inode :: Inode where
  "wild_direct_inode = \<lparr> mode = 0x81a4, atime = 1, dtime = 0, blocks = 2,
                          block = no_blocks (0 := 0x7FFFFFFF) \<rparr>"

text \<open>An indirect block with a hole: slot 0 is zero, slot 1 is block 42.\<close>

definition sparse_device :: device where
  "sparse_device = no_device (17 := Some (pointer_block (0 # 42 # replicate 254 0)))"

text \<open>
  A journal with two transactions. Block 50 is a block of the inode table and holds the
  inodes 17, 18 and 19. Journal block 101 is its copy in transaction 7: inode 17 is a
  directory whose first block is 500 and inode 18 is a file in use. Journal block 102 is
  its copy in transaction 12: inodes 17 and 18 were deleted at time 100 and inode 19 is a
  directory whose first block is 500. On disk now, inode 18 is deleted (at time 300) and
  the other inodes are in use; the file system has one group of 32 inodes and blocks of
  1024 bytes. Journal block 103 is the copy in transaction 15: inode 17 is a directory
  whose first block is 500 and whose access time is 0, inode 18 was deleted at time 250
  and inode 19 is a file in use.
\<close>

definition dir_inode :: "32 word \<Rightarrow> Inode" where
  "dir_inode b = \<lparr> mode = 0x41ed, atime = 1, dtime = 0, blocks = 2, block = no_blocks (0 := b) \<rparr>"

definition live_file :: Inode where
  "live_file = \<lparr> mode = 0x81a4, atime = 1, dtime = 0, blocks = 2, block = no_blocks (0 := 600) \<rparr>"

definition dead_inode :: "16 word \<Rightarrow> 32 word \<Rightarrow> Inode" where
  "dead_inode md t = \<lparr> mode = md, atime = 1, dtime = t, blocks = 0, block = no_blocks \<rparr>"

definition inode_block :: "Inode list \<Rightarrow> block_buf" where
  "inode_block cs = \<lparr> as_pointers = [], as_inodes = cs, as_dir_entry = no_dir_entry \<rparr>"

definition never_read_dir_inode :: Inode where
  "never_read_dir_inode =
     \<lparr> mode = 0x41ed, atime = 0, dtime = 0, blocks = 2, block = no_blocks (0 := 500) \<rparr>"

definition journal_device :: device where
  "journal_device = no_device
     (101 := Some (inode_block [dir_inode 500, live_file, dead_inode 0 0]),
      102 := Some (inode_block [dead_inode 0x41ed 100, dead_inode 0x81a4 100, dir_inode 500]),
      103 := Some (inode_block [never_read_dir_inode, dead_inode 0x81a4 250, live_file]))"

definition journal_tables :: inode_tables where
  "journal_tables = \<lparr> inode_to_block = (\<lambda>i. 50), block_to_inode = (\<lambda>b. 17),
                        is_inode = (\<lambda>b. b = 50),
                        groups = 1, block_size = 1024, inodes_per_group = 32,
                        all_inodes = (\<lambda>g. if g = 0
                          then Some (replicate 17 live_file @ dead_inode 0x81a4 300 #
                                       replicate 14 live_file)
                          else None),
                        inode_bitmap = (\<lambda>g k. if k = 2 then 0xfd else 0xff) \<rparr>"

definition tag7 :: Descriptor where
  "tag7 = DescriptorTag 101 7 50 0"

definition tag12 :: Descriptor where
  "tag12 = DescriptorTag 102 12 50 0"

definition tag15 :: Descriptor where
  "tag15 = DescriptorTag 103 15 50 0"

definition two_tag_index :: journal_index where
  "two_tag_index =
     \<lparr> sequence_transaction_map =
         [7 \<mapsto> \<lparr> T_block = 101, T_sequence = 7, T_committed = False, T_descriptor = [tag7] \<rparr>,
          12 \<mapsto> \<lparr> T_block = 102, T_sequence = 12, T_committed = False, T_descriptor = [tag12] \<rparr>],
       block_to_descriptors_map = [50 \<mapsto> [tag7, tag12]],
       block_in_journal_to_descriptors_map = [101 \<mapsto> tag7, 102 \<mapsto> tag12] \<rparr>"

definition three_tag_index :: journal_index where
  "three_tag_index =
     \<lparr> sequence_transaction_map =
         [7 \<mapsto> \<lparr> T_block = 101, T_sequence = 7, T_committed = False, T_descriptor = [tag7] \<rparr>,
          12 \<mapsto> \<lparr> T_block = 102, T_sequence = 12, T_committed = False, T_descriptor = [tag12] \<rparr>,
          15 \<mapsto> \<lparr> T_block = 103, T_sequence = 15, T_committed = False, T_descriptor = [tag15] \<rparr>],
       block_to_descriptors_map = [50 \<mapsto> [tag7, tag12, tag15]],
       block_in_journal_to_descriptors_map = [101 \<mapsto> tag7, 102 \<mapsto> tag12, 103 \<mapsto> tag15] \<rparr>"

text \<open>
  For stage 2: a file system with one group of 8 inodes, all of them in use, where inode 2
  is a directory whose first block is 500 and the other inodes are files; and one with
  one group of 2048 inodes where inode 2008 is that directory. Nothing is in the journal
  in \<open>no_journal\<close>. In \<open>some_journal\<close> the blocks 200 to 299 are the journal; block 200
  holds a copy written in transaction 5, the blocks 201 and 202 hold copies written in
  transaction 9, and block 203 has no descriptor. Every directory block can be read, and
  nothing is done after the removal of the journal blocks.
\<close>

definition small_tables :: inode_tables where
  "small_tables = \<lparr> inode_to_block = (\<lambda>i. 50), block_to_inode = (\<lambda>b. 1),
                      is_inode = (\<lambda>b. b = 50),
                      groups = 1, block_size = 1024, inodes_per_group = 8,
                      all_inodes = (\<lambda>g. if g = 0
                        then Some (live_file # dir_inode 500 # replicate 6 live_file)
                        else None),
                      inode_bitmap = (\<lambda>g k. 0xff) \<rparr>"

definition large_tables :: inode_tables where
  "large_tables = \<lparr> inode_to_block = (\<lambda>i. 50), block_to_inode = (\<lambda>b. 1),
                      is_inode = (\<lambda>b. b = 50),
                      groups = 1, block_size = 1024, inodes_per_group = 2048,
                      all_inodes = (\<lambda>g. if g = 0
                        then Some (replicate 2007 live_file @ dir_inode 500 #
                                     replicate 40 live_file)
                        else None),
                      inode_bitmap = (\<lambda>g k. 0xff) \<rparr>"

definition no_journal :: "32 word \<Rightarrow> bool" where
  "no_journal b = False"

definition some_journal :: "32 word \<Rightarrow> bool" where
  "some_journal b = (200 \<le> b \<and> b < 300)"

definition journal_descriptors :: "32 word \<rightharpoonup> Descriptor" where
  "journal_descriptors =
     [200 \<mapsto> DescriptorTag 200 5 900 0, 201 \<mapsto> DescriptorTag 201 9 901 0,
      202 \<mapsto> DescriptorTag 202 9 902 0]"

definition every_block_reads :: "32 word \<Rightarrow> unit result" where
  "every_block_reads b = Inr ()"

definition nothing_later :: "32 word list \<Rightarrow> blocknr_vector_type \<Rightarrow> blocknr_vector_type result" where
  "nothing_later dirs bv = Inr bv"

section \<open>Properties\<close>

subsection \<open>Bitmap masks and the single-value encoding\<close>

lemma unat_and_7: "unat (n AND 7 :: 32 word) = unat n mod 8"
proof -
  have "n AND 7 = take_bit 3 n" by (simp add: take_bit_eq_mask mask_eq_exp_minus_1)
  then show ?thesis by (simp add: take_bit_eq_mod unat_mod)
qed

lemma unat_drop3_and_63: "unat (drop_bit 3 (n AND 63 :: 32 word)) = unat n mod 64 div 8"
proof -
  have "n AND 63 = take_bit 6 n" by (simp add: take_bit_eq_mask mask_eq_exp_minus_1)
  then show ?thesis by (simp add: take_bit_eq_mod drop_bit_eq_div unat_mod unat_div)
qed

lemma mod64_split: "(m::nat) mod 64 = 8 * (m mod 64 div 8) + m mod 8"
proof -
  have "(m mod 64) mod 8 = m mod 8" by (simp add: mod_mod_cancel)
  then show ?thesis using mult_div_mod_eq[of 8 "m mod 64"] by simp
qed

lemma mask_get_bitmap_mask: "mask (get_bitmap_mask n) = push_bit (unat n mod 64) 1"
proof -
  define q where "q = unat n mod 64 div 8"
  define r where "r = unat n mod 8"
  have s: "unat n mod 64 = 8 * q + r" unfolding q_def r_def by (rule mod64_split)
  have r: "r < 8" unfolding r_def by simp
  have m: "mask (get_bitmap_mask n) = set_byte q (ucast (push_bit r (1 :: 32 word))) 0"
    by (simp only: get_bitmap_mask_def unat_and_7 unat_drop3_and_63 bitmap_ptr.simps q_def r_def)
  have "set_byte q (ucast (push_bit r (1 :: 32 word))) 0 = push_bit (8 * q + r) 1"
    unfolding set_byte_def
    apply (rule bit_word_eqI)
    using r apply (auto simp add: bit_simps)
    done
  then show ?thesis
    by (simp only: m s)
qed

lemma lane_arith0: "(r::nat) < 8 \<Longrightarrow> (r + k * 8) div 8 = k \<and> (r + k * 8) mod 8 = r"
  by simp

lemma lane_arith1: 
  assumes "8 * k \<le> j" "j - 8 * k < 8" shows "j div 8 = k \<and> j mod 8 = j - 8 * (k::nat)"
proof -
  have "j - 8 * k + k * 8 = j" using assms(1) by linarith
  then show ?thesis using lane_arith0[OF assms(2), of k] by (simp only:)
qed

lemma lane_arith2: "j div 8 = k \<Longrightarrow> 8 * k \<le> j \<and> j - 8 * k < (8::nat)"
proof -
  assume a: "j div 8 = k"
  have "j = 8 * (j div 8) + j mod 8" by simp
  then have "j = 8 * k + j mod 8" using a by simp
  moreover have "j mod 8 < 8" by simp
  ultimately show ?thesis by linarith
qed

lemma bit_byte_lane:
  "bit (push_bit (8 * k) (ucast (x :: 8 word)) :: 64 word) j \<longleftrightarrow> j < 64 \<and> j div 8 = k \<and> bit x (j mod 8)"
proof (cases "8 * k \<le> j \<and> j - 8 * k < 8")
  case True
  then have "j div 8 = k" "j mod 8 = j - 8 * k" using lane_arith1[of k j] by simp_all
  with True show ?thesis by (auto simp add: bit_simps)
next
  case False
  then have "j div 8 \<noteq> k" using lane_arith2[of j k] by blast
  with False show ?thesis by (auto simp add: bit_simps dest: bit_imp_le_length)
qed

lemma bit_load64: "bit (load64 bm i) j \<longleftrightarrow> j < 64 \<and> bit (bm (8 * i + j div 8)) (j mod 8)"
proof -
  define d where "d = j div 8"
  define m where "m = j mod 8"
  have lane: "bit (push_bit (8 * k) (ucast x) :: 64 word) j \<longleftrightarrow> j < 64 \<and> d = k \<and> bit x m" for k and x :: "8 word"
    unfolding d_def m_def by (rule bit_byte_lane)
  have lanes:
    "bit (ucast x :: 64 word) j \<longleftrightarrow> j < 64 \<and> d = 0 \<and> bit x m"
    "bit (push_bit 8 (ucast x) :: 64 word) j \<longleftrightarrow> j < 64 \<and> d = 1 \<and> bit x m"
    "bit (push_bit 16 (ucast x) :: 64 word) j \<longleftrightarrow> j < 64 \<and> d = 2 \<and> bit x m"
    "bit (push_bit 24 (ucast x) :: 64 word) j \<longleftrightarrow> j < 64 \<and> d = 3 \<and> bit x m"
    "bit (push_bit 32 (ucast x) :: 64 word) j \<longleftrightarrow> j < 64 \<and> d = 4 \<and> bit x m"
    "bit (push_bit 40 (ucast x) :: 64 word) j \<longleftrightarrow> j < 64 \<and> d = 5 \<and> bit x m"
    "bit (push_bit 48 (ucast x) :: 64 word) j \<longleftrightarrow> j < 64 \<and> d = 6 \<and> bit x m"
    "bit (push_bit 56 (ucast x) :: 64 word) j \<longleftrightarrow> j < 64 \<and> d = 7 \<and> bit x m"
    for x :: "8 word"
    using lane[of 0 x] lane[of 1 x] lane[of 2 x] lane[of 3 x] lane[of 4 x] lane[of 5 x]
      lane[of 6 x] lane[of 7 x] by simp_all
  have d8: "j < 64 \<Longrightarrow> d = 0 \<or> d = 1 \<or> d = 2 \<or> d = 3 \<or> d = 4 \<or> d = 5 \<or> d = 6 \<or> d = 7"
  proof -
    assume "j < 64"
    then have "d < 8" unfolding d_def by (simp add: less_mult_imp_div_less)
    then show ?thesis by linarith
  qed
  have "bit (load64 bm i) j \<longleftrightarrow> j < 64 \<and> bit (bm (8 * i + d)) m"
  proof (cases "j < 64")
    case True
    from d8[OF True] show ?thesis
      unfolding load64_def bit_or_iff lanes
      by (elim disjE) (simp_all add: True)
  next
    case False
    then show ?thesis unfolding load64_def bit_or_iff lanes by simp
  qed
  then show ?thesis unfolding d_def m_def .
qed

lemma sint_drop_bit_6: "sint (drop_bit 6 (n :: 32 word)) = uint n div 64"
proof -
  have "\<not> bit (drop_bit 6 n) 31" using bit_imp_le_length[of n 37] by (auto simp add: bit_simps)
  then have "sint (drop_bit 6 n) = uint (drop_bit 6 n)"
  proof -
    assume nb: "\<not> bit (drop_bit 6 n) 31"
    have "take_bit 31 (uint (drop_bit 6 n)) = uint (drop_bit 6 n)"
    proof (rule bit_eqI)
      fix k
      show "bit (take_bit 31 (uint (drop_bit 6 n))) k = bit (uint (drop_bit 6 n)) k"
        using nb bit_imp_le_length[of "drop_bit 6 n" k]
        by (cases "k = 31") (auto simp add: bit_take_bit_iff bit_uint_iff)
    qed
    with nb show ?thesis
      by (simp add: sint_uint signed_take_bit_eq_if_positive bit_uint_iff)
  qed
  then show ?thesis by (simp add: unsigned_drop_bit_eq drop_bit_eq_div uint_div)
qed

lemma div8_split: "8 * ((m::nat) div 64) + m mod 64 div 8 = m div 8"
proof -
  have e: "m mod 64 + (8 * (m div 64)) * 8 = m" by simp
  have "(m mod 64 + (8 * (m div 64)) * 8) div 8 = 8 * (m div 64) + m mod 64 div 8"
    by (rule div_mult_self1) simp
  then show ?thesis by (simp only: e)
qed

lemma div8_mod8: "(m::nat) mod 64 div 8 = m div 8 mod 8"
proof -
  have "m mod 64 div 8 < 8" by (simp add: less_mult_imp_div_less)
  then have "(m mod 64 div 8 + (m div 64) * 8) mod 8 = m mod 64 div 8"
    by (simp only: mod_mult_self1 mod_less)
  moreover have "m mod 64 div 8 + (m div 64) * 8 = m div 8" using div8_split[of m] by simp
  ultimately show ?thesis by simp
qed


lemma get_byte_mask:
  assumes "k < 8"
  shows "get_byte k (mask (get_bitmap_mask n)) = (if k = unat n div 8 mod 8 then push_bit (unat n mod 8) 1 else 0)"
proof -
  define q where "q = unat n mod 64 div 8"
  define r where "r = unat n mod 8"
  have s: "unat n mod 64 = 8 * q + r" unfolding q_def r_def by (rule mod64_split)
  have r: "r < 8" unfolding r_def by simp
  have q: "unat n div 8 mod 8 = q" unfolding q_def by (rule div8_mod8[symmetric])
  have "get_byte k (push_bit (8 * q + r) 1) = (if k = q then push_bit r 1 else 0)"
  proof (rule bit_word_eqI)
    fix j assume j: "j < LENGTH(8)"
    have "8 * q + r = 8 * k + j \<longleftrightarrow> q = k \<and> r = j"
    proof
      assume "8 * q + r = 8 * k + j"
      then have e: "r + q * 8 = j + k * 8" by simp
      have j8: "j < 8" using j by simp
      have dq: "(r + q * 8) div 8 = q" and mr: "(r + q * 8) mod 8 = r"
        by (rule conjunct1[OF lane_arith0[OF r]], rule conjunct2[OF lane_arith0[OF r]])
      have dk: "(j + k * 8) div 8 = k" and mj: "(j + k * 8) mod 8 = j"
        by (rule conjunct1[OF lane_arith0[OF j8]], rule conjunct2[OF lane_arith0[OF j8]])
      have "q = k" using e dq dk by metis
      moreover have "r = j" using e mr mj by metis
      ultimately show "q = k \<and> r = j" by (rule conjI)
    qed simp
    then show "bit (get_byte k (push_bit (8 * q + r) 1 :: 64 word)) j = bit (if k = q then push_bit r 1 else 0 :: 8 word) j"
      using j assms r by (auto simp add: get_byte_def bit_simps)
  qed
  then show ?thesis by (simp only: mask_get_bitmap_mask s q flip: r_def)
qed

lemma bitmap_test_eq: "bitmap_test bm n \<longleftrightarrow> bit (bm (unat n div 8)) (unat n mod 8)"
proof -
  have i: "nat (index (get_bitmap_mask n)) = unat n div 64"
    by (simp add: get_bitmap_mask_def sint_drop_bit_6 nat_div_distrib)
  have "bitmap_test bm n \<longleftrightarrow> bit (load64 bm (unat n div 64)) (unat n mod 64)"
    unfolding bitmap_test_def Let_def i mask_get_bitmap_mask by (rule bit_iff_and_push_bit_not_eq_0[symmetric])
  also have "\<dots> \<longleftrightarrow> bit (bm (8 * (unat n div 64) + unat n mod 64 div 8)) (unat n mod 64 mod 8)"
    by (simp add: bit_load64)
  also have "unat n mod 64 mod 8 = unat n mod 8" by (simp add: mod_mod_cancel)
  finally show ?thesis by (simp only: div8_split)
qed

lemma single_tag_bit: "(ucast (push_bit 1 b OR 1 :: 32 word) :: 64 word) AND 1 = 1"
  by (rule bit_word_eqI) (auto simp add: bit_simps)

lemma bit_times2_Suc: "bit (b * 2 :: 'a::len word) (Suc n) \<longleftrightarrow> Suc n < LENGTH('a) \<and> bit b n"
  by (simp only: mult.commute[of b 2] bit_double_Suc_iff possible_bit_word)

lemma single_shift_back: "(ucast (drop_bit 1 (ucast (push_bit 1 b OR 1 :: 32 word) :: 64 word)) :: 32 word) = take_bit 31 b"
  apply (rule bit_word_eqI) 
  apply (auto simp add: bit_simps bit_times2_Suc)
  done

lemma take_bit_31_small: "b < 2^31 \<Longrightarrow> take_bit 31 (b :: 32 word) = b"
  using less_mask_eq[of b 31] by (simp add: take_bit_eq_mask)

lemma unat_take_bit_31: "unat (take_bit 31 (b :: 32 word)) = unat b mod 2^31"
  by (simp add: take_bit_eq_mod unat_mod)


lemma single_not_zero: "(ucast (push_bit 1 b OR 1 :: 32 word) :: 64 word) \<noteq> 0"
  using single_tag_bit[of b] by auto

lemma single_props:
  "\<not> empty (Blocknr (ucast (push_bit 1 b OR 1 :: 32 word)))"
  "is_vector (Blocknr (ucast (push_bit 1 b OR 1 :: 32 word))) = Inr False"
  "size_bv (Blocknr (ucast (push_bit 1 b OR 1 :: 32 word))) = Inr 1"
  "first_entry (Blocknr (ucast (push_bit 1 b OR 1 :: 32 word))) = Inr (take_bit 31 b)"
  using single_tag_bit[of b] single_not_zero[of b] single_shift_back[of b]
  by (simp_all add: empty_def is_vector_def size_bv_def first_entry_def bind_result_def)

lemma push_back_empty: "push_back b (Blocknr 0) = (if b = 0 then Inl Assertion_failed else Inr (Blocknr (ucast (push_bit 1 b OR 1))))"
  by (simp add: push_back_def empty_def)


text \<open>
  Claim C9. For every bit number \<open>n\<close>, \<open>get_bitmap_mask n\<close> has index \<open>n >> 6\<close>, and
  its mask holds \<open>1 << (n & 7)\<close> in byte \<open>(n >> 3) mod 8\<close> and zero in the other seven
  bytes. Testing the mask against a bitmap read as 64-bit little-endian elements answers
  bit \<open>n & 7\<close> of the bitmap's byte \<open>n >> 3\<close>: bytes ascend, and inside a byte the least
  significant bit comes first. For bit 13 the index is 0 and the mask is \<open>0x2000\<close>, that
  is \<open>byte[1] = 0x20\<close>.
\<close>

theorem get_bitmap_mask_layout:
  "index (get_bitmap_mask n) = uint n div 64 \<and>
   (\<forall>k<8. get_byte k (mask (get_bitmap_mask n)) =
            (if k = unat n div 8 mod 8 then push_bit (unat n mod 8) 1 else 0)) \<and>
   (bitmap_test bm n \<longleftrightarrow> bit (bm (unat n div 8)) (unat n mod 8)) \<and>
   get_bitmap_mask 13 = \<lparr> index = 0, mask = 0x2000 \<rparr> \<and>
   get_byte 1 (mask (get_bitmap_mask 13)) = 0x20"
proof (intro conjI allI impI)
  show "index (get_bitmap_mask n) = uint n div 64"
    by (simp add: get_bitmap_mask_def sint_drop_bit_6)
next
  fix k :: nat assume "k < 8"
  then show "get_byte k (mask (get_bitmap_mask n)) =
      (if k = unat n div 8 mod 8 then push_bit (unat n mod 8) 1 else 0)"
    by (rule get_byte_mask)
next
  show "bitmap_test bm n \<longleftrightarrow> bit (bm (unat n div 8)) (unat n mod 8)"
    by (rule bitmap_test_eq)
next
  show "get_bitmap_mask 13 = \<lparr> index = 0, mask = 0x2000 \<rparr>"
    by (simp add: get_bitmap_mask_def set_byte_def)
next
  show "get_byte 1 (mask (get_bitmap_mask 13)) = 0x20"
    by (simp add: get_bitmap_mask_def set_byte_def get_byte_def)
qed

theorem get_bitmap_mask_layout_witness:
  "(1 :: nat) < 8 \<and> get_byte 1 (mask (get_bitmap_mask 13)) = 0x20 \<and>
   (0 :: nat) < 8 \<and> get_byte 0 (mask (get_bitmap_mask 13)) = 0 \<and>
   bitmap_test (\<lambda>k. if k = 1 then 0x20 else 0) 13 \<and>
   \<not> bitmap_test (\<lambda>k. if k = 1 then 0x10 else 0) 13"
proof -
  have bytes: "\<forall>k<8. get_byte k (mask (get_bitmap_mask 13)) =
      (if k = unat (13 :: 32 word) div 8 mod 8 then push_bit (unat (13 :: 32 word) mod 8) 1 else 0)"
    using get_bitmap_mask_layout [of 13 "\<lambda>k. 0"] by (rule conjunct1 [OF conjunct2])
  have t1: "bitmap_test (\<lambda>k. if k = 1 then 0x20 else 0) 13 \<longleftrightarrow>
      bit (if unat (13 :: 32 word) div 8 = 1 then 0x20 else 0 :: 8 word) (unat (13 :: 32 word) mod 8)"
    using get_bitmap_mask_layout [of 13 "\<lambda>k. if k = 1 then 0x20 else 0"] by blast
  have t2: "bitmap_test (\<lambda>k. if k = 1 then 0x10 else 0) 13 \<longleftrightarrow>
      bit (if unat (13 :: 32 word) div 8 = 1 then 0x10 else 0 :: 8 word) (unat (13 :: 32 word) mod 8)"
    using get_bitmap_mask_layout [of 13 "\<lambda>k. if k = 1 then 0x10 else 0"] by blast
  have b1: "get_byte 1 (mask (get_bitmap_mask 13)) = 0x20"
    using bytes [rule_format, of 1] by simp
  have b0: "get_byte 0 (mask (get_bitmap_mask 13)) = 0"
    using bytes [rule_format, of 0] by simp
  have "bit (0x20 :: 8 word) 5" "\<not> bit (0x10 :: 8 word) 5"
    by (simp_all add: bit_iff_odd)
  with t1 t2 b1 b0 show ?thesis by simp
qed

text \<open>
  Claim C10. Pushing a block number \<open>b\<close> with \<open>0 < b < 2^31\<close> onto an empty
  \<open>blocknr_vector_type\<close> gives a vector that is not empty, has size 1 and whose first
  entry is \<open>b\<close>. The bound is needed: \<open>(b << 1) | 1\<close> is computed in 32 bits before it
  is widened, so for \<open>b \<ge> 2^31\<close> the top bit is lost and the first entry read back is
  \<open>b mod 2^31\<close>, which differs from \<open>b\<close>.
\<close>

theorem push_back_single_roundtrip:
  "(empty bv0 \<and> 0 < b \<and> b < 2 ^ 31 \<longrightarrow>
      (\<exists>bv. push_back b bv0 = Inr bv \<and> \<not> empty bv \<and> size_bv bv = Inr 1 \<and>
            first_entry bv = Inr b)) \<and>
   (empty bv0 \<and> 2 ^ 31 \<le> b \<longrightarrow>
      (\<exists>bv e. push_back b bv0 = Inr bv \<and> \<not> empty bv \<and> size_bv bv = Inr 1 \<and>
              first_entry bv = Inr e \<and> unat e = unat b mod 2 ^ 31 \<and> e \<noteq> b))"
proof (intro conjI impI)
  assume a: "empty bv0 \<and> 0 < b \<and> b < 2 ^ 31"
  then have bv0: "bv0 = Blocknr 0" by (simp add: empty_def)
  from a have "b \<noteq> 0" by auto
  then have "push_back b (Blocknr 0) = Inr (Blocknr (ucast (push_bit 1 b OR 1)))"
    by (simp only: push_back_empty if_False)
  moreover have "take_bit 31 b = b" using a by (simp add: take_bit_31_small)
  ultimately show "\<exists>bv. push_back b bv0 = Inr bv \<and> \<not> empty bv \<and> size_bv bv = Inr 1 \<and>
      first_entry bv = Inr b"
    unfolding bv0 using single_props [of b]
    by (intro exI [of _ "Blocknr (ucast (push_bit 1 b OR 1))"]) (simp only: simp_thms)
next
  assume a: "empty bv0 \<and> 2 ^ 31 \<le> b"
  then have bv0: "bv0 = Blocknr 0" by (simp add: empty_def)
  from a have "b \<noteq> 0" by auto
  then have "push_back b (Blocknr 0) = Inr (Blocknr (ucast (push_bit 1 b OR 1)))"
    by (simp only: push_back_empty if_False)
  moreover have "unat (take_bit 31 b) = unat b mod 2 ^ 31" by (rule unat_take_bit_31)
  moreover have "take_bit 31 b \<noteq> b"
  proof
    assume "take_bit 31 b = b"
    then have "unat b = unat b mod 2 ^ 31" using unat_take_bit_31 [of b] by simp
    moreover have "unat b mod 2 ^ 31 < 2 ^ 31" by (rule mod_less_divisor) simp
    ultimately have "unat b < 2 ^ 31" by (simp only:)
    moreover have "2 ^ 31 \<le> unat b" using a by (simp add: word_le_nat_alt)
    ultimately show False by simp
  qed
  ultimately show "\<exists>bv e. push_back b bv0 = Inr bv \<and> \<not> empty bv \<and> size_bv bv = Inr 1 \<and>
      first_entry bv = Inr e \<and> unat e = unat b mod 2 ^ 31 \<and> e \<noteq> b"
    unfolding bv0 using single_props [of b]
    by (intro exI [of _ "Blocknr (ucast (push_bit 1 b OR 1))"] exI [of _ "take_bit 31 b"])
       (simp only: simp_thms)
qed

theorem push_back_single_roundtrip_witness:
  "empty (Blocknr 0) \<and> (0 :: 32 word) < 500 \<and> (500 :: 32 word) < 2 ^ 31 \<and>
   (\<exists>bv. push_back 500 (Blocknr 0) = Inr bv \<and> \<not> empty bv \<and> size_bv bv = Inr 1 \<and>
         first_entry bv = Inr 500) \<and>
   (2 ^ 31 :: 32 word) \<le> 0x80000005 \<and>
   (\<exists>bv e. push_back 0x80000005 (Blocknr 0) = Inr bv \<and> first_entry bv = Inr e \<and>
           unat e = 5)"
proof -
  have e: "empty (Blocknr 0)" by (simp add: empty_def)
  have s: "(0 :: 32 word) < 500" "(500 :: 32 word) < 2 ^ 31" "(2 ^ 31 :: 32 word) \<le> 0x80000005"
    by simp_all
  from push_back_single_roundtrip [of "Blocknr 0" 500] e s
  have 1: "\<exists>bv. push_back 500 (Blocknr 0) = Inr bv \<and> \<not> empty bv \<and> size_bv bv = Inr 1 \<and>
      first_entry bv = Inr 500" by blast
  from push_back_single_roundtrip [of "Blocknr 0" "0x80000005"] e s
  obtain bv e' where 2: "push_back 0x80000005 (Blocknr 0) = Inr bv" "first_entry bv = Inr e'"
      "unat e' = unat (0x80000005 :: 32 word) mod 2 ^ 31" by blast
  from 2(3) have "unat e' = 5" by simp
  with 2 have "\<exists>bv e. push_back 0x80000005 (Blocknr 0) = Inr bv \<and> first_entry bv = Inr e \<and>
      unat e = 5" by blast
  with 1 e s show ?thesis by blast
qed

subsection \<open>The indirect-block walker\<close>

lemma indirect_block_loop_filter:
  "indirect_block_loop bc (filter (\<lambda>p. p \<noteq> 0) ps) = indirect_block_loop bc ps"
  by (induction ps) simp_all

lemma double_indirect_block_loop_filter:
  "double_indirect_block_loop dev bc indirect_mask (filter (\<lambda>p. p \<noteq> 0) ps) = double_indirect_block_loop dev bc indirect_mask ps"
  by (induction ps) (simp_all add: Let_def cong del: if_weak_cong)

lemma tripple_indirect_block_loop_filter:
  "tripple_indirect_block_loop dev bc indirect_mask (filter (\<lambda>p. p \<noteq> 0) ps) = tripple_indirect_block_loop dev bc indirect_mask ps"
  by (induction ps) (simp_all add: Let_def cong del: if_weak_cong)

lemma indirect_block_loop_stop:
  assumes "\<forall>x\<in>set xs. x < bc" "bc \<le> p" "0 < bc"
  shows "indirect_block_loop bc (xs @ p # ys) = (filter (\<lambda>x. x \<noteq> 0) xs, True)"
  using assms
proof (induction xs)
  case Nil
  then have "p \<noteq> 0" by auto
  with Nil show ?case by (simp add: is_block_number_def not_less)
next
  case (Cons x xs)
  then show ?case by (simp add: is_block_number_def)
qed

lemma indirect_block_loop_bound:
  "indirect_block_loop bc ps = (bs, r) \<Longrightarrow> \<forall>b\<in>set bs. b \<noteq> 0 \<and> b < bc"
  by (induction ps arbitrary: bs r) (auto simp: is_block_number_def split: if_splits prod.splits)

lemma iterate_indirect_bound:
  "iterate_over_all_blocks_of_indirect_block dev bc blk = Inr (bs, r) \<Longrightarrow> \<forall>b\<in>set bs. b \<noteq> 0 \<and> b < bc"
  by (auto simp: iterate_over_all_blocks_of_indirect_block_def bind_result_def split: sum.splits dest!: indirect_block_loop_bound)

lemma double_indirect_block_loop_bound:
  "double_indirect_block_loop dev bc indirect_mask ps = Inr (bs, r) \<Longrightarrow> \<forall>b\<in>set bs. b \<noteq> 0 \<and> b < bc"
proof (induction ps arbitrary: bs r)
  case Nil then show ?case by simp
next
  case (Cons p ps)
  show ?case
  proof (cases "p = 0")
    case True with Cons show ?thesis by simp
  next
    case False
    with Cons.prems Cons.IH show ?thesis
      by (auto simp: is_block_number_def bind_result_def Let_def split: if_splits sum.splits prod.splits dest!: iterate_indirect_bound)
  qed
qed


lemma iterate_double_bound:
  "iterate_over_all_blocks_of_double_indirect_block dev bc blk indirect_mask = Inr (bs, r) \<Longrightarrow> \<forall>b\<in>set bs. b \<noteq> 0 \<and> b < bc"
  by (auto simp: iterate_over_all_blocks_of_double_indirect_block_def bind_result_def split: sum.splits dest!: double_indirect_block_loop_bound)

lemma tripple_indirect_block_loop_bound:
  "tripple_indirect_block_loop dev bc indirect_mask ps = Inr (bs, r) \<Longrightarrow> \<forall>b\<in>set bs. b \<noteq> 0 \<and> b < bc"
proof (induction ps arbitrary: bs r)
  case Nil then show ?case by simp
next
  case (Cons p ps)
  show ?case
  proof (cases "p = 0")
    case True with Cons show ?thesis by simp
  next
    case False
    with Cons.prems Cons.IH show ?thesis
      by (auto simp: is_block_number_def bind_result_def Let_def split: if_splits sum.splits prod.splits dest!: iterate_double_bound)
  qed
qed

lemma iterate_tripple_bound:
  "iterate_over_all_blocks_of_tripple_indirect_block dev bc blk indirect_mask = Inr (bs, r) \<Longrightarrow> \<forall>b\<in>set bs. b \<noteq> 0 \<and> b < bc"
  by (auto simp: iterate_over_all_blocks_of_tripple_indirect_block_def bind_result_def split: sum.splits dest!: tripple_indirect_block_loop_bound)

lemma inode_pointersI: "k < 15 \<Longrightarrow> block inode k \<in> inode_pointers inode"
  by (simp add: inode_pointers_def)

lemma direct_blocks_from_inode:
  "b \<in> set (direct_blocks inode indirect_mask) \<Longrightarrow> b \<noteq> 0 \<and> b \<in> inode_pointers inode"
  by (auto simp: direct_blocks_def EXT3_NDIR_BLOCKS_def inode_pointersI split: if_splits)

lemma ind_stage_bound:
  "ind_stage dev bc inode indirect_mask = Inr (bs, r) \<Longrightarrow> \<forall>b\<in>set bs. b \<noteq> 0 \<and> (b < bc \<or> b \<in> inode_pointers inode)"
  by (auto simp: inode_pointersI ind_stage_def EXT3_IND_BLOCK_def bind_result_def Let_def split: if_splits sum.splits prod.splits dest!: iterate_indirect_bound)

lemma dind_stage_bound:
  "dind_stage dev bc inode indirect_mask = Inr (bs, r) \<Longrightarrow> \<forall>b\<in>set bs. b \<noteq> 0 \<and> (b < bc \<or> b \<in> inode_pointers inode)"
  by (auto simp: inode_pointersI dind_stage_def EXT3_DIND_BLOCK_def bind_result_def Let_def split: if_splits sum.splits prod.splits dest!: iterate_double_bound)

lemma tind_stage_bound:
  "tind_stage dev bc inode indirect_mask = Inr (bs, r) \<Longrightarrow> \<forall>b\<in>set bs. b \<noteq> 0 \<and> (b < bc \<or> b \<in> inode_pointers inode)"
  by (auto simp: inode_pointersI tind_stage_def EXT3_TIND_BLOCK_def bind_result_def Let_def split: if_splits sum.splits prod.splits dest!: iterate_tripple_bound)

lemma walker_bound:
  assumes "iterate_over_all_blocks_of dev bc inode indirect_mask = Inr (bs, r)"
  shows "\<forall>b\<in>set bs. b \<noteq> 0 \<and> (b < bc \<or> b \<in> inode_pointers inode)"
proof (cases "is_symlink inode \<and> blocks inode = 0")
  case True
  with assms show ?thesis by (simp add: iterate_over_all_blocks_of_def)
next
  case False
  let ?P = "\<lambda>b. b \<noteq> 0 \<and> (b < bc \<or> b \<in> inode_pointers inode)"
  have d: "\<forall>b\<in>set (direct_blocks inode indirect_mask). ?P b" using direct_blocks_from_inode by blast
  from assms False obtain ibs s1 where i: "ind_stage dev bc inode indirect_mask = Inr (ibs, s1)"
    by (auto simp: iterate_over_all_blocks_of_def bind_result_def split: sum.splits)
  note ib = ind_stage_bound[OF i]
  show ?thesis
  proof (cases s1)
    case True
    with assms False i have "bs = direct_blocks inode indirect_mask @ ibs"
      by (simp add: iterate_over_all_blocks_of_def bind_result_def)
    with d ib show ?thesis by auto
  next
    case s1: False
    from assms False i s1 obtain ds s2 where dd: "dind_stage dev bc inode indirect_mask = Inr (ds, s2)"
      by (auto simp: iterate_over_all_blocks_of_def bind_result_def split: sum.splits)
    note db = dind_stage_bound[OF dd]
    show ?thesis
    proof (cases s2)
      case True
      with assms False i s1 dd have "bs = direct_blocks inode indirect_mask @ ibs @ ds"
        by (simp add: iterate_over_all_blocks_of_def bind_result_def)
      with d ib db show ?thesis by auto
    next
      case s2: False
      from assms False i s1 dd s2 obtain ts s3 where t: "tind_stage dev bc inode indirect_mask = Inr (ts, s3)"
        by (auto simp: iterate_over_all_blocks_of_def bind_result_def split: sum.splits)
      note tb = tind_stage_bound[OF t]
      from assms False i s1 dd s2 t have "bs = direct_blocks inode indirect_mask @ ibs @ ds @ ts"
        by (simp add: iterate_over_all_blocks_of_def bind_result_def)
      with d ib db tb show ?thesis by auto
    qed
  qed
qed

lemma direct_slots: "[0..<EXT3_NDIR_BLOCKS] = [0, 1, 2, 3, 4, 5, 6, 7, 8, 9, 10, 11]"
  unfolding EXT3_NDIR_BLOCKS_def by (simp add: upt_rec)

lemma indirect_block_loop_zeros:
  "indirect_block_loop bc (replicate n 0) = ([], False)"
  by (induction n) simp_all

lemma indirect_block_loop_closed:
  "indirect_block_loop bc ps =
     (filter (\<lambda>p. p \<noteq> 0) (takeWhile (\<lambda>p. p = 0 \<or> p < bc) ps),
      \<exists>p\<in>set ps. p \<noteq> 0 \<and> \<not> p < bc)"
  by (induction ps) (auto simp: is_block_number_def)

lemma double_loop_continue:
  "double_indirect_block_loop dev bc m xs = Inr (bs, False) \<Longrightarrow>
   double_indirect_block_loop dev bc m (xs @ ys) =
     bind_result (double_indirect_block_loop dev bc m ys) (\<lambda>(cs, r). Inr (bs @ cs, r))"
proof (induction xs arbitrary: bs)
  case Nil
  then show ?case by (auto simp: bind_result_def split: sum.splits)
next
  case (Cons p xs)
  show ?case
  proof (cases "p = 0")
    case True
    with Cons show ?thesis by simp
  next
    case False
    show ?thesis
    proof (cases "m AND direct_bit \<noteq> 0")
      case True
      from Cons.prems False True obtain ns ts where
        n: "iterate_over_all_blocks_of_indirect_block dev bc p = Inr (ns, False)"
        and t: "double_indirect_block_loop dev bc m xs = Inr (ts, False)"
        and b: "bs = (if m AND indirect_bit \<noteq> 0 then [p] else []) @ ns @ ts"
        and v: "is_block_number bc p"
        by (auto simp: bind_result_def Let_def split: if_splits sum.splits prod.splits)
      from Cons.IH[OF t] n b v False True show ?thesis
        by (auto simp: bind_result_def Let_def split: sum.splits prod.splits)
    next
      case nd: False
      from Cons.prems False nd obtain ts where
        t: "double_indirect_block_loop dev bc m xs = Inr (ts, False)"
        and b: "bs = (if m AND indirect_bit \<noteq> 0 then [p] else []) @ ts"
        and v: "is_block_number bc p"
        by (auto simp: bind_result_def Let_def split: if_splits sum.splits prod.splits)
      from Cons.IH[OF t] b v False nd show ?thesis
        by (auto simp: bind_result_def Let_def split: sum.splits prod.splits)
    qed
  qed
qed

lemma double_loop_stopped:
  "double_indirect_block_loop dev bc m xs = Inr (bs, True) \<Longrightarrow>
   double_indirect_block_loop dev bc m (xs @ ys) = Inr (bs, True)"
proof (induction xs arbitrary: bs)
  case Nil
  then show ?case by simp
next
  case (Cons p xs)
  show ?case
  proof (cases "p = 0 \<or> \<not> is_block_number bc p")
    case True
    with Cons show ?thesis by auto
  next
    case False
    then have p: "p \<noteq> 0" "is_block_number bc p" by auto
    show ?thesis
    proof (cases "m AND direct_bit \<noteq> 0")
      case True
      from Cons.prems p True obtain ns st where
        n: "iterate_over_all_blocks_of_indirect_block dev bc p = Inr (ns, st)"
        by (auto simp: bind_result_def Let_def split: if_splits sum.splits prod.splits)
      show ?thesis
      proof (cases st)
        case True
        with Cons.prems p n \<open>m AND direct_bit \<noteq> 0\<close> show ?thesis
          by (auto simp: bind_result_def Let_def split: if_splits sum.splits prod.splits)
      next
        case st: False
        from Cons.prems p n st True obtain ts where
          t: "double_indirect_block_loop dev bc m xs = Inr (ts, True)"
          and b: "bs = (if m AND indirect_bit \<noteq> 0 then [p] else []) @ ns @ ts"
          by (auto simp: bind_result_def Let_def split: if_splits sum.splits prod.splits)
        from Cons.IH[OF t] b p n st True show ?thesis
          by (auto simp: bind_result_def Let_def split: sum.splits prod.splits)
      qed
    next
      case nd: False
      from Cons.prems p nd obtain ts where
        t: "double_indirect_block_loop dev bc m xs = Inr (ts, True)"
        and b: "bs = (if m AND indirect_bit \<noteq> 0 then [p] else []) @ ts"
        by (auto simp: bind_result_def Let_def split: if_splits sum.splits prod.splits)
      from Cons.IH[OF t] b p nd show ?thesis
        by (auto simp: bind_result_def Let_def split: sum.splits prod.splits)
    qed
  qed
qed

lemma tripple_loop_continue:
  "tripple_indirect_block_loop dev bc m xs = Inr (bs, False) \<Longrightarrow>
   tripple_indirect_block_loop dev bc m (xs @ ys) =
     bind_result (tripple_indirect_block_loop dev bc m ys) (\<lambda>(cs, r). Inr (bs @ cs, r))"
proof (induction xs arbitrary: bs)
  case Nil
  then show ?case by (auto simp: bind_result_def split: sum.splits)
next
  case (Cons p xs)
  show ?case
  proof (cases "p = 0")
    case True
    with Cons show ?thesis by simp
  next
    case False
    from Cons.prems False obtain ns ts where
      n: "iterate_over_all_blocks_of_double_indirect_block dev bc p m = Inr (ns, False)"
      and t: "tripple_indirect_block_loop dev bc m xs = Inr (ts, False)"
      and b: "bs = (if m AND indirect_bit \<noteq> 0 then [p] else []) @ ns @ ts"
      and v: "is_block_number bc p"
      by (auto simp: bind_result_def Let_def split: if_splits sum.splits prod.splits)
    from Cons.IH[OF t] n b v False show ?thesis
      by (auto simp: bind_result_def Let_def split: sum.splits prod.splits)
  qed
qed

lemma tripple_loop_stopped:
  "tripple_indirect_block_loop dev bc m xs = Inr (bs, True) \<Longrightarrow>
   tripple_indirect_block_loop dev bc m (xs @ ys) = Inr (bs, True)"
proof (induction xs arbitrary: bs)
  case Nil
  then show ?case by simp
next
  case (Cons p xs)
  show ?case
  proof (cases "p = 0 \<or> \<not> is_block_number bc p")
    case True
    with Cons show ?thesis by auto
  next
    case False
    then have p: "p \<noteq> 0" "is_block_number bc p" by auto
    from Cons.prems p obtain ns st where
      n: "iterate_over_all_blocks_of_double_indirect_block dev bc p m = Inr (ns, st)"
      by (auto simp: bind_result_def Let_def split: if_splits sum.splits prod.splits)
    show ?thesis
    proof (cases st)
      case True
      with Cons.prems p n show ?thesis
        by (auto simp: bind_result_def Let_def split: if_splits sum.splits prod.splits)
    next
      case st: False
      from Cons.prems p n st obtain ts where
        t: "tripple_indirect_block_loop dev bc m xs = Inr (ts, True)"
        and b: "bs = (if m AND indirect_bit \<noteq> 0 then [p] else []) @ ns @ ts"
        by (auto simp: bind_result_def Let_def split: if_splits sum.splits prod.splits)
      from Cons.IH[OF t] b p n st show ?thesis
        by (auto simp: bind_result_def Let_def split: sum.splits prod.splits)
    qed
  qed
qed

lemma double_loop_zero_anywhere:
  "double_indirect_block_loop dev bc m (xs @ 0 # ys) = double_indirect_block_loop dev bc m (xs @ ys)"
  by (induction xs) (simp_all add: Let_def cong del: if_weak_cong)

lemma tripple_loop_zero_anywhere:
  "tripple_indirect_block_loop dev bc m (xs @ 0 # ys) = tripple_indirect_block_loop dev bc m (xs @ ys)"
  by (induction xs) (simp_all add: Let_def cong del: if_weak_cong)

lemma double_loop_single:
  "q \<noteq> 0 \<Longrightarrow> q < bc \<Longrightarrow>
   double_indirect_block_loop dev bc m [q] =
     (if m AND direct_bit \<noteq> 0
      then bind_result (iterate_over_all_blocks_of_indirect_block dev bc q)
             (\<lambda>(cs, stop). Inr ((if m AND indirect_bit \<noteq> 0 then [q] else []) @ cs, stop))
      else Inr (if m AND indirect_bit \<noteq> 0 then [q] else [], False))"
  by (auto simp: is_block_number_def bind_result_def Let_def split: sum.splits prod.splits)

lemma tripple_loop_single:
  "q \<noteq> 0 \<Longrightarrow> q < bc \<Longrightarrow>
   tripple_indirect_block_loop dev bc m [q] =
     bind_result (iterate_over_all_blocks_of_double_indirect_block dev bc q m)
       (\<lambda>(cs, stop). Inr ((if m AND indirect_bit \<noteq> 0 then [q] else []) @ cs, stop))"
  by (auto simp: is_block_number_def bind_result_def Let_def split: sum.splits prod.splits)

lemma double_loop_bad_slot:
  "p \<noteq> 0 \<Longrightarrow> \<not> p < bc \<Longrightarrow> double_indirect_block_loop dev bc m (p # ys) = Inr ([], True)"
  by (simp add: is_block_number_def)

lemma tripple_loop_bad_slot:
  "p \<noteq> 0 \<Longrightarrow> \<not> p < bc \<Longrightarrow> tripple_indirect_block_loop dev bc m (p # ys) = Inr ([], True)"
  by (simp add: is_block_number_def)

lemma double_loop_flag:
  "double_indirect_block_loop dev bc m ps = Inr (bs, r) \<Longrightarrow>
   r \<longleftrightarrow> (\<exists>p\<in>set ps. p \<noteq> 0 \<and> (\<not> p < bc \<or>
          (m AND direct_bit \<noteq> 0 \<and> (\<exists>cs. iterate_over_all_blocks_of_indirect_block dev bc p = Inr (cs, True)))))"
proof (induction ps arbitrary: bs r)
  case Nil then show ?case by auto
next
  case (Cons p ps)
  show ?case
  proof (cases "p = 0")
    case True with Cons show ?thesis by simp
  next
    case False
    show ?thesis
    proof (cases "p < bc")
      case nb: False
      with False Cons.prems show ?thesis by (auto simp: is_block_number_def)
    next
      case True
      show ?thesis
      proof (cases "m AND direct_bit \<noteq> 0")
        case d: True
        from Cons.prems False True d obtain ns st where
          n: "iterate_over_all_blocks_of_indirect_block dev bc p = Inr (ns, st)"
          by (auto simp: is_block_number_def bind_result_def Let_def split: if_splits sum.splits prod.splits)
        show ?thesis
        proof (cases st)
          case True
          with Cons.prems False \<open>p < bc\<close> d n have "r" 
            by (auto simp: is_block_number_def bind_result_def Let_def split: if_splits sum.splits prod.splits)
          with True n d False show ?thesis by auto
        next
          case st: False
          from Cons.prems False True d n st obtain ts where
            t: "double_indirect_block_loop dev bc m ps = Inr (ts, r)"
            by (auto simp: is_block_number_def bind_result_def Let_def split: if_splits sum.splits prod.splits)
          from Cons.IH[OF t] n st True False show ?thesis by auto
        qed
      next
        case nd: False
        from Cons.prems False True nd obtain ts where
          t: "double_indirect_block_loop dev bc m ps = Inr (ts, r)"
          by (auto simp: is_block_number_def bind_result_def Let_def split: if_splits sum.splits prod.splits)
        from Cons.IH[OF t] nd True False show ?thesis by auto
      qed
    qed
  qed
qed

lemma tripple_loop_flag:
  "tripple_indirect_block_loop dev bc m ps = Inr (bs, r) \<Longrightarrow>
   r \<longleftrightarrow> (\<exists>p\<in>set ps. p \<noteq> 0 \<and> (\<not> p < bc \<or>
          (\<exists>cs. iterate_over_all_blocks_of_double_indirect_block dev bc p m = Inr (cs, True))))"
proof (induction ps arbitrary: bs r)
  case Nil then show ?case by auto
next
  case (Cons p ps)
  show ?case
  proof (cases "p = 0")
    case True with Cons show ?thesis by simp
  next
    case False
    show ?thesis
    proof (cases "p < bc")
      case nb: False
      with False Cons.prems show ?thesis by (auto simp: is_block_number_def)
    next
      case True
      from Cons.prems False True obtain ns st where
        n: "iterate_over_all_blocks_of_double_indirect_block dev bc p m = Inr (ns, st)"
        by (auto simp: is_block_number_def bind_result_def Let_def split: if_splits sum.splits prod.splits)
      show ?thesis
      proof (cases st)
        case st: True
        with Cons.prems False True n have "r"
          by (auto simp: is_block_number_def bind_result_def Let_def split: if_splits sum.splits prod.splits)
        with st n False show ?thesis by auto
      next
        case st: False
        from Cons.prems False True n st obtain ts where
          t: "tripple_indirect_block_loop dev bc m ps = Inr (ts, r)"
          by (auto simp: is_block_number_def bind_result_def Let_def split: if_splits sum.splits prod.splits)
        from Cons.IH[OF t] n st True False show ?thesis by auto
      qed
    qed
  qed
qed

lemma double_loop_zeros: "double_indirect_block_loop dev bc m (replicate n 0) = Inr ([], False)"
  by (induction n) simp_all

lemma tripple_loop_zeros: "tripple_indirect_block_loop dev bc m (replicate n 0) = Inr ([], False)"
  by (induction n) simp_all

lemma mask_bits:
  "direct_bit \<noteq> 0" "direct_bit AND direct_bit \<noteq> 0" "direct_bit AND indirect_bit = 0"
  "(direct_bit OR indirect_bit) AND direct_bit \<noteq> 0"
  "(direct_bit OR indirect_bit) AND indirect_bit \<noteq> 0"
  by (simp_all add: direct_bit_def indirect_bit_def)

lemma nested_blocks:
  "nested_device 17 = Some (pointer_block (42 # 0x7FFFFFFF # 19 # replicate 253 0))"
  "nested_device 18 = Some (pointer_block (17 # 19 # replicate 254 0))"
  "nested_device 20 = Some (pointer_block (18 # 19 # replicate 254 0))"
  "nested_device 22 = Some (pointer_block (42 # replicate 255 0))"
  "nested_device 25 = Some (pointer_block (43 # replicate 255 0))"
  "nested_device 21 = Some (pointer_block (22 # 0x7FFFFFFF # 19 # replicate 253 0))"
  "nested_device 26 = Some (pointer_block (22 # replicate 255 0))"
  "nested_device 23 = Some (pointer_block (26 # 0x7FFFFFFF # 19 # replicate 253 0))"
  "nested_device 24 = Some (pointer_block (0 # 22 # 0 # 25 # replicate 252 0))"
  "nested_device 27 = Some (pointer_block (0 # 26 # 0 # 24 # replicate 252 0))"
  by (simp_all add: nested_device_def reuse_device_def)

lemma iterate_indirect_read:
  "iterate_over_all_blocks_of_indirect_block dev bc blk =
     (case dev blk of None \<Rightarrow> Inl Assertion_failed
      | Some buf \<Rightarrow> Inr (indirect_block_loop bc (as_pointers buf)))"
  by (simp add: iterate_over_all_blocks_of_indirect_block_def get_block_def bind_result_def
        split: option.splits)

lemma iterate_double_read:
  "iterate_over_all_blocks_of_double_indirect_block dev bc blk m =
     (case dev blk of None \<Rightarrow> Inl Assertion_failed
      | Some buf \<Rightarrow> double_indirect_block_loop dev bc m (as_pointers buf))"
  by (simp add: iterate_over_all_blocks_of_double_indirect_block_def get_block_def bind_result_def
        split: option.splits)

lemma iterate_tripple_read:
  "iterate_over_all_blocks_of_tripple_indirect_block dev bc blk m =
     (case dev blk of None \<Rightarrow> Inl Assertion_failed
      | Some buf \<Rightarrow> tripple_indirect_block_loop dev bc m (as_pointers buf))"
  by (simp add: iterate_over_all_blocks_of_tripple_indirect_block_def get_block_def bind_result_def
        split: option.splits)

lemma nested_17: "iterate_over_all_blocks_of_indirect_block nested_device 100000 17 = Inr ([42], True)"
  by (simp add: iterate_indirect_read nested_blocks pointer_block_def is_block_number_def)

lemma nested_22: "iterate_over_all_blocks_of_indirect_block nested_device 100000 22 = Inr ([42], False)"
  by (simp add: iterate_indirect_read nested_blocks pointer_block_def is_block_number_def indirect_block_loop_zeros)

lemma nested_25: "iterate_over_all_blocks_of_indirect_block nested_device 100000 25 = Inr ([43], False)"
  by (simp add: iterate_indirect_read nested_blocks pointer_block_def is_block_number_def indirect_block_loop_zeros)

lemma nested_18: "iterate_over_all_blocks_of_double_indirect_block nested_device 100000 18 direct_bit = Inr ([42], True)"
  by (simp add: iterate_double_read nested_blocks pointer_block_def is_block_number_def nested_17 bind_result_def mask_bits)

lemma nested_26: "iterate_over_all_blocks_of_double_indirect_block nested_device 100000 26 direct_bit = Inr ([42], False)"
  by (simp add: iterate_double_read nested_blocks pointer_block_def is_block_number_def nested_22 bind_result_def mask_bits double_loop_zeros)

lemma nested_24: "iterate_over_all_blocks_of_double_indirect_block nested_device 100000 24 direct_bit = Inr ([42, 43], False)"
  by (simp add: iterate_double_read nested_blocks pointer_block_def is_block_number_def nested_22 nested_25 bind_result_def mask_bits double_loop_zeros)

lemma nested_20: "iterate_over_all_blocks_of_tripple_indirect_block nested_device 100000 20 direct_bit = Inr ([42], True)"
  by (simp add: iterate_tripple_read nested_blocks pointer_block_def is_block_number_def nested_18 bind_result_def mask_bits)

lemma nested_27: "iterate_over_all_blocks_of_tripple_indirect_block nested_device 100000 27 direct_bit = Inr ([42, 42, 43], False)"
  by (simp add: iterate_tripple_read nested_blocks pointer_block_def is_block_number_def nested_26 nested_24 bind_result_def mask_bits tripple_loop_zeros)

lemma bad_slot_not_zero: "0 < bc \<Longrightarrow> bc \<le> p \<Longrightarrow> p \<noteq> 0 \<and> \<not> p < (bc :: 32 word)"
  by auto

lemma double_loop_nested_stop:
  "q \<noteq> 0 \<Longrightarrow> q < bc \<Longrightarrow> m AND direct_bit \<noteq> 0 \<Longrightarrow>
   iterate_over_all_blocks_of_indirect_block dev bc q = Inr (cs, True) \<Longrightarrow>
   double_indirect_block_loop dev bc m (q # ys) =
     Inr ((if m AND indirect_bit \<noteq> 0 then [q] else []) @ cs, True)"
  by (simp add: is_block_number_def bind_result_def Let_def)

lemma tripple_loop_nested_stop:
  "q \<noteq> 0 \<Longrightarrow> q < bc \<Longrightarrow>
   iterate_over_all_blocks_of_double_indirect_block dev bc q m = Inr (cs, True) \<Longrightarrow>
   tripple_indirect_block_loop dev bc m (q # ys) =
     Inr ((if m AND indirect_bit \<noteq> 0 then [q] else []) @ cs, True)"
  by (simp add: is_block_number_def bind_result_def Let_def)

lemma walk_stops_in_ind:
  "\<not> (is_symlink inode \<and> blocks inode = 0) \<Longrightarrow> block inode EXT3_IND_BLOCK = q \<Longrightarrow> q \<noteq> 0 \<Longrightarrow>
   m AND direct_bit \<noteq> 0 \<Longrightarrow>
   iterate_over_all_blocks_of_indirect_block dev bc q = Inr (cs, True) \<Longrightarrow>
   iterate_over_all_blocks_of dev bc inode m =
     Inr (direct_blocks inode m @ (if m AND indirect_bit \<noteq> 0 then [q] else []) @ cs, True)"
  by (simp add: iterate_over_all_blocks_of_def ind_stage_def bind_result_def Let_def)

lemma walk_stops_in_dind:
  "\<not> (is_symlink inode \<and> blocks inode = 0) \<Longrightarrow> ind_stage dev bc inode m = Inr (ibs, False) \<Longrightarrow>
   block inode EXT3_DIND_BLOCK = q \<Longrightarrow> q \<noteq> 0 \<Longrightarrow>
   iterate_over_all_blocks_of_double_indirect_block dev bc q m = Inr (cs, True) \<Longrightarrow>
   iterate_over_all_blocks_of dev bc inode m =
     Inr (direct_blocks inode m @ ibs @ (if m AND indirect_bit \<noteq> 0 then [q] else []) @ cs, True)"
  by (simp add: iterate_over_all_blocks_of_def dind_stage_def bind_result_def Let_def)

lemma walk_stops_in_tind:
  "\<not> (is_symlink inode \<and> blocks inode = 0) \<Longrightarrow> ind_stage dev bc inode m = Inr (ibs, False) \<Longrightarrow>
   dind_stage dev bc inode m = Inr (dbs, False) \<Longrightarrow>
   block inode EXT3_TIND_BLOCK = q \<Longrightarrow> q \<noteq> 0 \<Longrightarrow>
   iterate_over_all_blocks_of_tripple_indirect_block dev bc q m = Inr (cs, True) \<Longrightarrow>
   iterate_over_all_blocks_of dev bc inode m =
     Inr (direct_blocks inode m @ ibs @ dbs @ (if m AND indirect_bit \<noteq> 0 then [q] else []) @ cs, True)"
  by (simp add: iterate_over_all_blocks_of_def tind_stage_def bind_result_def Let_def)

lemma nested_inodes:
  "\<not> (is_symlink reuse_inode \<and> blocks reuse_inode = 0)"
  "\<not> (is_symlink dind_inode \<and> blocks dind_inode = 0)"
  "\<not> (is_symlink tind_inode \<and> blocks tind_inode = 0)"
  "block reuse_inode EXT3_IND_BLOCK = 17"
  "block dind_inode EXT3_DIND_BLOCK = 18"
  "block tind_inode EXT3_TIND_BLOCK = 20"
  "direct_blocks reuse_inode direct_bit = []"
  "direct_blocks dind_inode direct_bit = []"
  "direct_blocks tind_inode direct_bit = []"
  "ind_stage nested_device 100000 dind_inode direct_bit = Inr ([], False)"
  "ind_stage nested_device 100000 tind_inode direct_bit = Inr ([], False)"
  "dind_stage nested_device 100000 tind_inode direct_bit = Inr ([], False)"
  by (simp_all add: is_symlink_def reuse_inode_def dind_inode_def tind_inode_def no_blocks_def
        EXT3_IND_BLOCK_def EXT3_DIND_BLOCK_def EXT3_TIND_BLOCK_def direct_blocks_def direct_slots
        ind_stage_def dind_stage_def)

text \<open>
  Claim C4. On a file system that has blocks at all, a slot whose value is at least the
  block count ends the walk at every level. In an indirect block the walk stops at the
  first such slot and returns true, the flag for a reused or corrupted indirect block,
  having passed to the action the non-zero slots before it and nothing from that slot on.
  In a double or triple indirect block, a walk that has come through the slots before
  such a slot without stopping returns true at it, with what was passed so far and
  nothing after. The walk of a block that can be read is the walk of its slots. A true
  from a nested walk ends the enclosing block in the same way, and a true from the walk
  of the inode's indirect, double indirect or triple indirect block is what the walk of
  the whole inode returns, the later stages not being entered. On the inode with indirect
  pointer 17, block 17 holding 42, \<open>0x7FFFFFFF\<close>, 19, 0, ... and a block count of
  100000, block 42 is passed and the walk returns true without passing 19.
\<close>

theorem indirect_walk_stops_at_bad_pointer:
  assumes "0 < bc" and "bc \<le> p"
  shows
    "((\<forall>x\<in>set xs. x < bc) \<longrightarrow>
        indirect_block_loop bc (xs @ p # ys) = (filter (\<lambda>x. x \<noteq> 0) xs, True)) \<and>
     (double_indirect_block_loop dev bc m xs = Inr (bs, False) \<longrightarrow>
        double_indirect_block_loop dev bc m (xs @ p # ys) = Inr (bs, True)) \<and>
     (tripple_indirect_block_loop dev bc m xs = Inr (bs, False) \<longrightarrow>
        tripple_indirect_block_loop dev bc m (xs @ p # ys) = Inr (bs, True)) \<and>
     (dev blk = Some buf \<longrightarrow>
        iterate_over_all_blocks_of_indirect_block dev bc blk =
          Inr (indirect_block_loop bc (as_pointers buf)) \<and>
        iterate_over_all_blocks_of_double_indirect_block dev bc blk m =
          double_indirect_block_loop dev bc m (as_pointers buf) \<and>
        iterate_over_all_blocks_of_tripple_indirect_block dev bc blk m =
          tripple_indirect_block_loop dev bc m (as_pointers buf)) \<and>
     (q \<noteq> 0 \<and> q < bc \<and> m AND direct_bit \<noteq> 0 \<and>
      double_indirect_block_loop dev bc m xs = Inr (bs, False) \<and>
      iterate_over_all_blocks_of_indirect_block dev bc q = Inr (cs, True) \<longrightarrow>
        double_indirect_block_loop dev bc m (xs @ q # ys) =
          Inr (bs @ (if m AND indirect_bit \<noteq> 0 then [q] else []) @ cs, True)) \<and>
     (q \<noteq> 0 \<and> q < bc \<and>
      tripple_indirect_block_loop dev bc m xs = Inr (bs, False) \<and>
      iterate_over_all_blocks_of_double_indirect_block dev bc q m = Inr (cs, True) \<longrightarrow>
        tripple_indirect_block_loop dev bc m (xs @ q # ys) =
          Inr (bs @ (if m AND indirect_bit \<noteq> 0 then [q] else []) @ cs, True)) \<and>
     (\<not> (is_symlink inode \<and> blocks inode = 0) \<and> block inode EXT3_IND_BLOCK = q \<and> q \<noteq> 0 \<and>
      m AND direct_bit \<noteq> 0 \<and>
      iterate_over_all_blocks_of_indirect_block dev bc q = Inr (cs, True) \<longrightarrow>
        iterate_over_all_blocks_of dev bc inode m =
          Inr (direct_blocks inode m @ (if m AND indirect_bit \<noteq> 0 then [q] else []) @ cs, True)) \<and>
     (\<not> (is_symlink inode \<and> blocks inode = 0) \<and> ind_stage dev bc inode m = Inr (ibs, False) \<and>
      block inode EXT3_DIND_BLOCK = q \<and> q \<noteq> 0 \<and>
      iterate_over_all_blocks_of_double_indirect_block dev bc q m = Inr (cs, True) \<longrightarrow>
        iterate_over_all_blocks_of dev bc inode m =
          Inr (direct_blocks inode m @ ibs @ (if m AND indirect_bit \<noteq> 0 then [q] else []) @ cs,
               True)) \<and>
     (\<not> (is_symlink inode \<and> blocks inode = 0) \<and> ind_stage dev bc inode m = Inr (ibs, False) \<and>
      dind_stage dev bc inode m = Inr (dbs, False) \<and>
      block inode EXT3_TIND_BLOCK = q \<and> q \<noteq> 0 \<and>
      iterate_over_all_blocks_of_tripple_indirect_block dev bc q m = Inr (cs, True) \<longrightarrow>
        iterate_over_all_blocks_of dev bc inode m =
          Inr (direct_blocks inode m @ ibs @ dbs @
               (if m AND indirect_bit \<noteq> 0 then [q] else []) @ cs, True))"
proof -
  from assms have p: "p \<noteq> 0" "\<not> p < bc" by auto
  have 1: "(\<forall>x\<in>set xs. x < bc) \<longrightarrow>
        indirect_block_loop bc (xs @ p # ys) = (filter (\<lambda>x. x \<noteq> 0) xs, True)"
    using assms by (auto intro: indirect_block_loop_stop)
  have 2: "double_indirect_block_loop dev bc m xs = Inr (bs, False) \<longrightarrow>
        double_indirect_block_loop dev bc m (xs @ p # ys) = Inr (bs, True)"
  proof
    assume "double_indirect_block_loop dev bc m xs = Inr (bs, False)"
    from double_loop_continue[OF this, of "p # ys"] double_loop_bad_slot[OF p, of dev m ys]
    show "double_indirect_block_loop dev bc m (xs @ p # ys) = Inr (bs, True)"
      by (simp add: bind_result_def)
  qed
  have 3: "tripple_indirect_block_loop dev bc m xs = Inr (bs, False) \<longrightarrow>
        tripple_indirect_block_loop dev bc m (xs @ p # ys) = Inr (bs, True)"
  proof
    assume "tripple_indirect_block_loop dev bc m xs = Inr (bs, False)"
    from tripple_loop_continue[OF this, of "p # ys"] tripple_loop_bad_slot[OF p, of dev m ys]
    show "tripple_indirect_block_loop dev bc m (xs @ p # ys) = Inr (bs, True)"
      by (simp add: bind_result_def)
  qed
  have 4: "dev blk = Some buf \<longrightarrow>
        iterate_over_all_blocks_of_indirect_block dev bc blk =
          Inr (indirect_block_loop bc (as_pointers buf)) \<and>
        iterate_over_all_blocks_of_double_indirect_block dev bc blk m =
          double_indirect_block_loop dev bc m (as_pointers buf) \<and>
        iterate_over_all_blocks_of_tripple_indirect_block dev bc blk m =
          tripple_indirect_block_loop dev bc m (as_pointers buf)"
    by (simp add: iterate_indirect_read iterate_double_read iterate_tripple_read)
  have 5: "q \<noteq> 0 \<and> q < bc \<and> m AND direct_bit \<noteq> 0 \<and>
      double_indirect_block_loop dev bc m xs = Inr (bs, False) \<and>
      iterate_over_all_blocks_of_indirect_block dev bc q = Inr (cs, True) \<longrightarrow>
        double_indirect_block_loop dev bc m (xs @ q # ys) =
          Inr (bs @ (if m AND indirect_bit \<noteq> 0 then [q] else []) @ cs, True)"
  proof
    assume a: "q \<noteq> 0 \<and> q < bc \<and> m AND direct_bit \<noteq> 0 \<and>
      double_indirect_block_loop dev bc m xs = Inr (bs, False) \<and>
      iterate_over_all_blocks_of_indirect_block dev bc q = Inr (cs, True)"
    then have "double_indirect_block_loop dev bc m (q # ys) =
        Inr ((if m AND indirect_bit \<noteq> 0 then [q] else []) @ cs, True)"
      by (intro double_loop_nested_stop) simp_all
    with a double_loop_continue[of dev bc m xs bs "q # ys"]
    show "double_indirect_block_loop dev bc m (xs @ q # ys) =
          Inr (bs @ (if m AND indirect_bit \<noteq> 0 then [q] else []) @ cs, True)"
      by (simp add: bind_result_def)
  qed
  have 6: "q \<noteq> 0 \<and> q < bc \<and>
      tripple_indirect_block_loop dev bc m xs = Inr (bs, False) \<and>
      iterate_over_all_blocks_of_double_indirect_block dev bc q m = Inr (cs, True) \<longrightarrow>
        tripple_indirect_block_loop dev bc m (xs @ q # ys) =
          Inr (bs @ (if m AND indirect_bit \<noteq> 0 then [q] else []) @ cs, True)"
  proof
    assume a: "q \<noteq> 0 \<and> q < bc \<and>
      tripple_indirect_block_loop dev bc m xs = Inr (bs, False) \<and>
      iterate_over_all_blocks_of_double_indirect_block dev bc q m = Inr (cs, True)"
    then have "tripple_indirect_block_loop dev bc m (q # ys) =
        Inr ((if m AND indirect_bit \<noteq> 0 then [q] else []) @ cs, True)"
      by (intro tripple_loop_nested_stop) simp_all
    with a tripple_loop_continue[of dev bc m xs bs "q # ys"]
    show "tripple_indirect_block_loop dev bc m (xs @ q # ys) =
          Inr (bs @ (if m AND indirect_bit \<noteq> 0 then [q] else []) @ cs, True)"
      by (simp add: bind_result_def)
  qed
  have 7: "\<not> (is_symlink inode \<and> blocks inode = 0) \<and> block inode EXT3_IND_BLOCK = q \<and> q \<noteq> 0 \<and>
      m AND direct_bit \<noteq> 0 \<and>
      iterate_over_all_blocks_of_indirect_block dev bc q = Inr (cs, True) \<longrightarrow>
        iterate_over_all_blocks_of dev bc inode m =
          Inr (direct_blocks inode m @ (if m AND indirect_bit \<noteq> 0 then [q] else []) @ cs, True)"
    using walk_stops_in_ind[of inode q m dev bc cs] by blast
  have 8: "\<not> (is_symlink inode \<and> blocks inode = 0) \<and> ind_stage dev bc inode m = Inr (ibs, False) \<and>
      block inode EXT3_DIND_BLOCK = q \<and> q \<noteq> 0 \<and>
      iterate_over_all_blocks_of_double_indirect_block dev bc q m = Inr (cs, True) \<longrightarrow>
        iterate_over_all_blocks_of dev bc inode m =
          Inr (direct_blocks inode m @ ibs @ (if m AND indirect_bit \<noteq> 0 then [q] else []) @ cs,
               True)"
    using walk_stops_in_dind[of inode dev bc m ibs q cs] by blast
  have 9: "\<not> (is_symlink inode \<and> blocks inode = 0) \<and> ind_stage dev bc inode m = Inr (ibs, False) \<and>
      dind_stage dev bc inode m = Inr (dbs, False) \<and>
      block inode EXT3_TIND_BLOCK = q \<and> q \<noteq> 0 \<and>
      iterate_over_all_blocks_of_tripple_indirect_block dev bc q m = Inr (cs, True) \<longrightarrow>
        iterate_over_all_blocks_of dev bc inode m =
          Inr (direct_blocks inode m @ ibs @ dbs @
               (if m AND indirect_bit \<noteq> 0 then [q] else []) @ cs, True)"
    using walk_stops_in_tind[of inode dev bc m ibs dbs q cs] by blast
  from 1 2 3 4 5 6 7 8 9 show ?thesis by (intro conjI)
qed

theorem indirect_walk_stops_at_bad_pointer_witness:
  "(0 :: 32 word) < 100000 \<and> (100000 :: 32 word) \<le> 0x7FFFFFFF \<and> (42 :: 32 word) < 100000 \<and>
   indirect_block_loop 100000 ([42] @ 0x7FFFFFFF # 19 # replicate 253 0) = ([42], True) \<and>
   nested_device 17 = Some (pointer_block (42 # 0x7FFFFFFF # 19 # replicate 253 0)) \<and>
   iterate_over_all_blocks_of_indirect_block nested_device 100000 17 = Inr ([42], True) \<and>
   double_indirect_block_loop nested_device 100000 direct_bit [22] = Inr ([42], False) \<and>
   double_indirect_block_loop nested_device 100000 direct_bit
     ([22] @ 0x7FFFFFFF # 19 # replicate 253 0) = Inr ([42], True) \<and>
   iterate_over_all_blocks_of_double_indirect_block nested_device 100000 21 direct_bit =
     Inr ([42], True) \<and>
   tripple_indirect_block_loop nested_device 100000 direct_bit [26] = Inr ([42], False) \<and>
   tripple_indirect_block_loop nested_device 100000 direct_bit
     ([26] @ 0x7FFFFFFF # 19 # replicate 253 0) = Inr ([42], True) \<and>
   iterate_over_all_blocks_of_tripple_indirect_block nested_device 100000 23 direct_bit =
     Inr ([42], True) \<and>
   double_indirect_block_loop nested_device 100000 direct_bit ([] @ 17 # 19 # replicate 254 0) =
     Inr ([42], True) \<and>
   tripple_indirect_block_loop nested_device 100000 direct_bit ([] @ 18 # 19 # replicate 254 0) =
     Inr ([42], True) \<and>
   iterate_over_all_blocks_of nested_device 100000 reuse_inode direct_bit = Inr ([42], True) \<and>
   iterate_over_all_blocks_of nested_device 100000 dind_inode direct_bit = Inr ([42], True) \<and>
   iterate_over_all_blocks_of nested_device 100000 tind_inode direct_bit = Inr ([42], True)"
proof -
  have n: "(0 :: 32 word) < 100000" "(100000 :: 32 word) \<le> 0x7FFFFFFF" by simp_all
  have small: "(42 :: 32 word) < 100000" "(17 :: 32 word) \<noteq> 0 \<and> (17 :: 32 word) < 100000"
    "(18 :: 32 word) \<noteq> 0 \<and> (18 :: 32 word) < 100000" "(20 :: 32 word) \<noteq> 0" by simp_all
  have d22: "double_indirect_block_loop nested_device 100000 direct_bit [22] = Inr ([42], False)"
    by (simp add: is_block_number_def nested_22 bind_result_def mask_bits)
  have t26: "tripple_indirect_block_loop nested_device 100000 direct_bit [26] = Inr ([42], False)"
    by (simp add: is_block_number_def nested_26 bind_result_def mask_bits)
  have d0: "double_indirect_block_loop nested_device 100000 direct_bit [] = Inr ([], False)"
    and t0: "tripple_indirect_block_loop nested_device 100000 direct_bit [] = Inr ([], False)"
    by simp_all
  note T = indirect_walk_stops_at_bad_pointer [OF n]
  have a1: "indirect_block_loop 100000 ([42] @ 0x7FFFFFFF # 19 # replicate 253 0) = ([42], True)"
    using T [where xs = "[42]" and ys = "19 # replicate 253 0"] by simp
  have a2: "double_indirect_block_loop nested_device 100000 direct_bit
      ([22] @ 0x7FFFFFFF # 19 # replicate 253 0) = Inr ([42], True)"
    using T [where dev = nested_device and m = direct_bit and xs = "[22]" and bs = "[42]"
               and ys = "19 # replicate 253 0"] d22 by blast
  have a3: "tripple_indirect_block_loop nested_device 100000 direct_bit
      ([26] @ 0x7FFFFFFF # 19 # replicate 253 0) = Inr ([42], True)"
    using T [where dev = nested_device and m = direct_bit and xs = "[26]" and bs = "[42]"
               and ys = "19 # replicate 253 0"] t26 by blast
  have r17: "iterate_over_all_blocks_of_indirect_block nested_device 100000 17 =
      Inr (indirect_block_loop 100000 (42 # 0x7FFFFFFF # 19 # replicate 253 0))"
    using T [where dev = nested_device and blk = 17
               and buf = "pointer_block (42 # 0x7FFFFFFF # 19 # replicate 253 0)"] nested_blocks(1)
    by (simp add: pointer_block_def)
  with a1 have b17: "iterate_over_all_blocks_of_indirect_block nested_device 100000 17 = Inr ([42], True)"
    by simp
  have r21: "iterate_over_all_blocks_of_double_indirect_block nested_device 100000 21 direct_bit =
      double_indirect_block_loop nested_device 100000 direct_bit (22 # 0x7FFFFFFF # 19 # replicate 253 0)"
    using T [where dev = nested_device and blk = 21 and m = direct_bit
               and buf = "pointer_block (22 # 0x7FFFFFFF # 19 # replicate 253 0)"] nested_blocks(6)
    by (simp add: pointer_block_def)
  with a2 have b21: "iterate_over_all_blocks_of_double_indirect_block nested_device 100000 21 direct_bit =
      Inr ([42], True)" by simp
  have r23: "iterate_over_all_blocks_of_tripple_indirect_block nested_device 100000 23 direct_bit =
      tripple_indirect_block_loop nested_device 100000 direct_bit (26 # 0x7FFFFFFF # 19 # replicate 253 0)"
    using T [where dev = nested_device and blk = 23 and m = direct_bit
               and buf = "pointer_block (26 # 0x7FFFFFFF # 19 # replicate 253 0)"] nested_blocks(8)
    by (simp add: pointer_block_def)
  with a3 have b23: "iterate_over_all_blocks_of_tripple_indirect_block nested_device 100000 23 direct_bit =
      Inr ([42], True)" by simp
  have a5: "double_indirect_block_loop nested_device 100000 direct_bit ([] @ 17 # 19 # replicate 254 0) =
      Inr ([] @ (if direct_bit AND indirect_bit \<noteq> 0 then [17] else []) @ [42], True)"
    using T [where dev = nested_device and m = direct_bit and xs = "[]" and bs = "[]" and q = 17
               and cs = "[42]" and ys = "19 # replicate 254 0"] d0 b17 small mask_bits by blast
  then have a5': "double_indirect_block_loop nested_device 100000 direct_bit ([] @ 17 # 19 # replicate 254 0) =
      Inr ([42], True)" by (simp add: mask_bits)
  have a6: "tripple_indirect_block_loop nested_device 100000 direct_bit ([] @ 18 # 19 # replicate 254 0) =
      Inr ([] @ (if direct_bit AND indirect_bit \<noteq> 0 then [18] else []) @ [42], True)"
    using T [where dev = nested_device and m = direct_bit and xs = "[]" and bs = "[]" and q = 18
               and cs = "[42]" and ys = "19 # replicate 254 0"] t0 nested_18 small by blast
  then have a6': "tripple_indirect_block_loop nested_device 100000 direct_bit ([] @ 18 # 19 # replicate 254 0) =
      Inr ([42], True)" by (simp add: mask_bits)
  have a7: "iterate_over_all_blocks_of nested_device 100000 reuse_inode direct_bit =
      Inr (direct_blocks reuse_inode direct_bit @ (if direct_bit AND indirect_bit \<noteq> 0 then [17] else []) @ [42], True)"
    using T [where dev = nested_device and m = direct_bit and inode = reuse_inode and q = 17
               and cs = "[42]"] nested_inodes(1,4) b17 small mask_bits by blast
  then have a7': "iterate_over_all_blocks_of nested_device 100000 reuse_inode direct_bit = Inr ([42], True)"
    by (simp add: mask_bits nested_inodes)
  have a8: "iterate_over_all_blocks_of nested_device 100000 dind_inode direct_bit =
      Inr (direct_blocks dind_inode direct_bit @ [] @ (if direct_bit AND indirect_bit \<noteq> 0 then [18] else []) @ [42], True)"
    using T [where dev = nested_device and m = direct_bit and inode = dind_inode and q = 18
               and cs = "[42]" and ibs = "[]"] nested_inodes(2,5,10) nested_18 small by blast
  then have a8': "iterate_over_all_blocks_of nested_device 100000 dind_inode direct_bit = Inr ([42], True)"
    by (simp add: mask_bits nested_inodes)
  have a9: "iterate_over_all_blocks_of nested_device 100000 tind_inode direct_bit =
      Inr (direct_blocks tind_inode direct_bit @ [] @ [] @ (if direct_bit AND indirect_bit \<noteq> 0 then [20] else []) @ [42], True)"
    using T [where dev = nested_device and m = direct_bit and inode = tind_inode and q = 20
               and cs = "[42]" and ibs = "[]" and dbs = "[]"] nested_inodes(3,6,11,12) nested_20 small by blast
  then have a9': "iterate_over_all_blocks_of nested_device 100000 tind_inode direct_bit = Inr ([42], True)"
    by (simp add: mask_bits nested_inodes)
  from n small(1) a1 nested_blocks(1) b17 d22 a2 b21 t26 a3 b23 a5' a6' a7' a8' a9'
  show ?thesis by (intro conjI)
qed

text \<open>
  Claim C5 as stated fails: the twelve direct slots and the three top-level slots of the
  inode are passed to the action without the \<open>is_block_number\<close> test. A first direct
  pointer \<open>0x7FFFFFFF\<close> on a device of 100000 blocks is passed as it is.
\<close>

theorem direct_pointer_not_checked:
  "iterate_over_all_blocks_of no_device 100000 wild_direct_inode direct_bit =
     Inr ([0x7FFFFFFF], False) \<and>
   (0x7FFFFFFF :: 32 word) \<noteq> 0 \<and> \<not> (0x7FFFFFFF :: 32 word) < 100000"
  by (simp add: iterate_over_all_blocks_of_def ind_stage_def dind_stage_def tind_stage_def
        direct_blocks_def bind_result_def is_symlink_def wild_direct_inode_def no_blocks_def
        direct_bit_def direct_slots EXT3_IND_BLOCK_def EXT3_DIND_BLOCK_def
        EXT3_TIND_BLOCK_def)

text \<open>
  Claim C5, amended. Every block number that a completed walk passes to the action is
  non-zero, and it is below the block count unless it is the value of one of the inode's
  own fifteen slots: the pointers read from indirect, double indirect and triple indirect
  blocks are all checked, the inode's own slots are not.
\<close>

theorem walked_pointers_checked_below_inode:
  assumes "iterate_over_all_blocks_of dev bc inode indirect_mask = Inr (bs, r)"
  shows "\<forall>b\<in>set bs. b \<noteq> 0 \<and> (b < bc \<or> b \<in> inode_pointers inode)"
  using assms by (rule walker_bound)

theorem walked_pointers_checked_below_inode_witness:
  "iterate_over_all_blocks_of reuse_device 100000 reuse_inode (direct_bit OR indirect_bit) =
     Inr ([17, 42], True) \<and>
   (17 :: 32 word) \<noteq> 0 \<and> 17 \<in> inode_pointers reuse_inode \<and> \<not> (17 \<in> inode_pointers wild_direct_inode) \<and>
   (42 :: 32 word) \<noteq> 0 \<and> (42 :: 32 word) < 100000"
proof -
  have run: "iterate_over_all_blocks_of reuse_device 100000 reuse_inode (direct_bit OR indirect_bit) =
      Inr ([17, 42], True)"
    by (simp add: iterate_over_all_blocks_of_def ind_stage_def direct_blocks_def bind_result_def
          iterate_over_all_blocks_of_indirect_block_def get_block_def is_block_number_def
          is_symlink_def reuse_inode_def reuse_device_def pointer_block_def no_blocks_def
          no_device_def direct_bit_def indirect_bit_def direct_slots EXT3_IND_BLOCK_def)
  from walked_pointers_checked_below_inode [OF run]
  have "(17 :: 32 word) \<noteq> 0 \<and> ((17 :: 32 word) < 100000 \<or> 17 \<in> inode_pointers reuse_inode)"
    and "(42 :: 32 word) \<noteq> 0 \<and> ((42 :: 32 word) < 100000 \<or> 42 \<in> inode_pointers reuse_inode)"
    by simp_all
  moreover have "17 \<in> inode_pointers reuse_inode"
    using inode_pointersI [of 12 reuse_inode] by (simp add: reuse_inode_def)
  moreover have "\<not> (17 \<in> inode_pointers wild_direct_inode)"
    by (auto simp add: inode_pointers_def wild_direct_inode_def no_blocks_def)
  ultimately show ?thesis using run by simp
qed

text \<open>
  Claim C6 as stated fails: a zero slot does not end the walk of an indirect block. With
  slot 0 zero and slot 1 holding block 42, block 42 is still passed to the action.
\<close>

theorem zero_slot_does_not_end_walk:
  "as_pointers (pointer_block (0 # 42 # replicate 254 0)) ! 0 = 0 \<and>
   as_pointers (pointer_block (0 # 42 # replicate 254 0)) ! 1 = 42 \<and>
   sparse_device 17 = Some (pointer_block (0 # 42 # replicate 254 0)) \<and>
   iterate_over_all_blocks_of_indirect_block sparse_device 100000 17 = Inr ([42], False)"
  by (simp add: iterate_over_all_blocks_of_indirect_block_def get_block_def bind_result_def
        sparse_device_def pointer_block_def is_block_number_def indirect_block_loop_zeros)

text \<open>
  Claim C6, amended. A zero slot is skipped: nothing is passed to the action for it and
  the walk goes on with the next slot of the same block. The walk of an indirect block
  passes exactly the non-zero slots that come before the first slot at or above the block
  count, in order, and returns true exactly when there is such a slot. In a double or
  triple indirect block a zero slot anywhere can be dropped without changing the walk; a
  walk that has come through some slots without stopping goes on with the slots after
  them, appending what they pass; a single non-zero slot below the block count passes
  itself when the mask asks for indirect blocks and then what the walk of the block it
  names passes; and the walk returns true exactly when some non-zero slot is at or above
  the block count or names a block whose own walk returns true.
\<close>

theorem zero_slots_are_skipped:
  "indirect_block_loop bc ps =
     (filter (\<lambda>p. p \<noteq> 0) (takeWhile (\<lambda>p. p = 0 \<or> p < bc) ps),
      \<exists>p\<in>set ps. p \<noteq> 0 \<and> \<not> p < bc) \<and>
   double_indirect_block_loop dev bc m (xs @ 0 # ys) = double_indirect_block_loop dev bc m (xs @ ys) \<and>
   tripple_indirect_block_loop dev bc m (xs @ 0 # ys) = tripple_indirect_block_loop dev bc m (xs @ ys) \<and>
   double_indirect_block_loop dev bc m ps =
     double_indirect_block_loop dev bc m (filter (\<lambda>p. p \<noteq> 0) ps) \<and>
   tripple_indirect_block_loop dev bc m ps =
     tripple_indirect_block_loop dev bc m (filter (\<lambda>p. p \<noteq> 0) ps) \<and>
   (double_indirect_block_loop dev bc m xs = Inr (bs, False) \<longrightarrow>
      double_indirect_block_loop dev bc m (xs @ ys) =
        bind_result (double_indirect_block_loop dev bc m ys) (\<lambda>(cs, r). Inr (bs @ cs, r))) \<and>
   (tripple_indirect_block_loop dev bc m xs = Inr (bs, False) \<longrightarrow>
      tripple_indirect_block_loop dev bc m (xs @ ys) =
        bind_result (tripple_indirect_block_loop dev bc m ys) (\<lambda>(cs, r). Inr (bs @ cs, r))) \<and>
   (q \<noteq> 0 \<and> q < bc \<longrightarrow>
      double_indirect_block_loop dev bc m [q] =
        (if m AND direct_bit \<noteq> 0
         then bind_result (iterate_over_all_blocks_of_indirect_block dev bc q)
                (\<lambda>(cs, stop). Inr ((if m AND indirect_bit \<noteq> 0 then [q] else []) @ cs, stop))
         else Inr (if m AND indirect_bit \<noteq> 0 then [q] else [], False)) \<and>
      tripple_indirect_block_loop dev bc m [q] =
        bind_result (iterate_over_all_blocks_of_double_indirect_block dev bc q m)
          (\<lambda>(cs, stop). Inr ((if m AND indirect_bit \<noteq> 0 then [q] else []) @ cs, stop))) \<and>
   (double_indirect_block_loop dev bc m ps = Inr (bs, r) \<longrightarrow>
      (r \<longleftrightarrow> (\<exists>p\<in>set ps. p \<noteq> 0 \<and> (\<not> p < bc \<or>
          (m AND direct_bit \<noteq> 0 \<and>
           (\<exists>cs. iterate_over_all_blocks_of_indirect_block dev bc p = Inr (cs, True))))))) \<and>
   (tripple_indirect_block_loop dev bc m ps = Inr (bs, r) \<longrightarrow>
      (r \<longleftrightarrow> (\<exists>p\<in>set ps. p \<noteq> 0 \<and> (\<not> p < bc \<or>
          (\<exists>cs. iterate_over_all_blocks_of_double_indirect_block dev bc p m = Inr (cs, True))))))"
proof -
  note 1 = indirect_block_loop_closed [of bc ps]
  note 2 = double_loop_zero_anywhere [of dev bc m xs ys]
  note 3 = tripple_loop_zero_anywhere [of dev bc m xs ys]
  note 4 = double_indirect_block_loop_filter [of dev bc m ps, symmetric]
  note 5 = tripple_indirect_block_loop_filter [of dev bc m ps, symmetric]
  have 6: "double_indirect_block_loop dev bc m xs = Inr (bs, False) \<longrightarrow>
      double_indirect_block_loop dev bc m (xs @ ys) =
        bind_result (double_indirect_block_loop dev bc m ys) (\<lambda>(cs, r). Inr (bs @ cs, r))"
    using double_loop_continue by blast
  have 7: "tripple_indirect_block_loop dev bc m xs = Inr (bs, False) \<longrightarrow>
      tripple_indirect_block_loop dev bc m (xs @ ys) =
        bind_result (tripple_indirect_block_loop dev bc m ys) (\<lambda>(cs, r). Inr (bs @ cs, r))"
    using tripple_loop_continue by blast
  have 8: "q \<noteq> 0 \<and> q < bc \<longrightarrow>
      double_indirect_block_loop dev bc m [q] =
        (if m AND direct_bit \<noteq> 0
         then bind_result (iterate_over_all_blocks_of_indirect_block dev bc q)
                (\<lambda>(cs, stop). Inr ((if m AND indirect_bit \<noteq> 0 then [q] else []) @ cs, stop))
         else Inr (if m AND indirect_bit \<noteq> 0 then [q] else [], False)) \<and>
      tripple_indirect_block_loop dev bc m [q] =
        bind_result (iterate_over_all_blocks_of_double_indirect_block dev bc q m)
          (\<lambda>(cs, stop). Inr ((if m AND indirect_bit \<noteq> 0 then [q] else []) @ cs, stop))"
    using double_loop_single [of q bc dev m] tripple_loop_single [of q bc dev m] by blast
  have 9: "double_indirect_block_loop dev bc m ps = Inr (bs, r) \<longrightarrow>
      (r \<longleftrightarrow> (\<exists>p\<in>set ps. p \<noteq> 0 \<and> (\<not> p < bc \<or>
          (m AND direct_bit \<noteq> 0 \<and>
           (\<exists>cs. iterate_over_all_blocks_of_indirect_block dev bc p = Inr (cs, True))))))"
    using double_loop_flag [of dev bc m ps bs r] by blast
  have 10: "tripple_indirect_block_loop dev bc m ps = Inr (bs, r) \<longrightarrow>
      (r \<longleftrightarrow> (\<exists>p\<in>set ps. p \<noteq> 0 \<and> (\<not> p < bc \<or>
          (\<exists>cs. iterate_over_all_blocks_of_double_indirect_block dev bc p m = Inr (cs, True)))))"
    using tripple_loop_flag [of dev bc m ps bs r] by blast
  from 1 2 3 4 5 6 7 8 9 10 show ?thesis by (intro conjI)
qed

theorem zero_slots_are_skipped_witness:
  "indirect_block_loop 100000 [0, 42, 43] = ([42, 43], False) \<and>
   indirect_block_loop 100000 [0, 42, 0x7FFFFFFF, 43] = ([42], True) \<and>
   double_indirect_block_loop nested_device 100000 direct_bit [22] = Inr ([42], False) \<and>
   double_indirect_block_loop nested_device 100000 direct_bit [25] = Inr ([43], False) \<and>
   double_indirect_block_loop nested_device 100000 direct_bit ([22] @ [25]) = Inr ([42, 43], False) \<and>
   double_indirect_block_loop nested_device 100000 direct_bit ([22] @ 0 # [25]) = Inr ([42, 43], False) \<and>
   tripple_indirect_block_loop nested_device 100000 direct_bit [26] = Inr ([42], False) \<and>
   tripple_indirect_block_loop nested_device 100000 direct_bit [24] = Inr ([42, 43], False) \<and>
   tripple_indirect_block_loop nested_device 100000 direct_bit ([26] @ [24]) = Inr ([42, 42, 43], False) \<and>
   tripple_indirect_block_loop nested_device 100000 direct_bit ([26] @ 0 # [24]) =
     Inr ([42, 42, 43], False) \<and>
   \<not> (\<exists>p\<in>set [22, 25]. p \<noteq> 0 \<and> (\<not> p < 100000 \<or>
          (direct_bit AND direct_bit \<noteq> 0 \<and>
           (\<exists>cs. iterate_over_all_blocks_of_indirect_block nested_device 100000 p = Inr (cs, True)))))"
proof -
  note T = zero_slots_are_skipped [where bc = 100000 and dev = nested_device and m = direct_bit]
  have q: "(22 :: 32 word) \<noteq> 0 \<and> (22 :: 32 word) < 100000" "(25 :: 32 word) \<noteq> 0 \<and> (25 :: 32 word) < 100000"
    "(26 :: 32 word) \<noteq> 0 \<and> (26 :: 32 word) < 100000" "(24 :: 32 word) \<noteq> 0 \<and> (24 :: 32 word) < 100000"
    by simp_all
  have i1: "indirect_block_loop 100000 [0, 42, 43] = ([42, 43], False)"
    using T [where ps = "[0, 42, 43]"] by simp
  have i2: "indirect_block_loop 100000 [0, 42, 0x7FFFFFFF, 43] = ([42], True)"
    using T [where ps = "[0, 42, 0x7FFFFFFF, 43]"] by simp
  have "double_indirect_block_loop nested_device 100000 direct_bit [22] =
      (if direct_bit AND direct_bit \<noteq> 0
         then bind_result (iterate_over_all_blocks_of_indirect_block nested_device 100000 22)
                (\<lambda>(cs, stop). Inr ((if direct_bit AND indirect_bit \<noteq> 0 then [22] else []) @ cs, stop))
         else Inr (if direct_bit AND indirect_bit \<noteq> 0 then [22] else [], False))"
    using T [where q = 22] q by blast
  then have d22: "double_indirect_block_loop nested_device 100000 direct_bit [22] = Inr ([42], False)"
    by (simp add: nested_22 mask_bits bind_result_def)
  have "double_indirect_block_loop nested_device 100000 direct_bit [25] =
      (if direct_bit AND direct_bit \<noteq> 0
         then bind_result (iterate_over_all_blocks_of_indirect_block nested_device 100000 25)
                (\<lambda>(cs, stop). Inr ((if direct_bit AND indirect_bit \<noteq> 0 then [25] else []) @ cs, stop))
         else Inr (if direct_bit AND indirect_bit \<noteq> 0 then [25] else [], False))"
    using T [where q = 25] q by blast
  then have d25: "double_indirect_block_loop nested_device 100000 direct_bit [25] = Inr ([43], False)"
    by (simp add: nested_25 mask_bits bind_result_def)
  have "double_indirect_block_loop nested_device 100000 direct_bit ([22] @ [25]) =
      bind_result (double_indirect_block_loop nested_device 100000 direct_bit [25]) (\<lambda>(cs, r). Inr ([42] @ cs, r))"
    using T [where xs = "[22]" and bs = "[42]" and ys = "[25]"] d22 by blast
  then have d2: "double_indirect_block_loop nested_device 100000 direct_bit ([22] @ [25]) = Inr ([42, 43], False)"
    by (simp only: d25 bind_result_def sum.case prod.case append.simps)
  have d3: "double_indirect_block_loop nested_device 100000 direct_bit ([22] @ 0 # [25]) = Inr ([42, 43], False)"
    using T [where xs = "[22]" and ys = "[25]"] d2 by simp
  have "tripple_indirect_block_loop nested_device 100000 direct_bit [26] =
        bind_result (iterate_over_all_blocks_of_double_indirect_block nested_device 100000 26 direct_bit)
          (\<lambda>(cs, stop). Inr ((if direct_bit AND indirect_bit \<noteq> 0 then [26] else []) @ cs, stop))"
    using T [where q = 26] q by blast
  then have t26: "tripple_indirect_block_loop nested_device 100000 direct_bit [26] = Inr ([42], False)"
    by (simp add: nested_26 mask_bits bind_result_def)
  have "tripple_indirect_block_loop nested_device 100000 direct_bit [24] =
        bind_result (iterate_over_all_blocks_of_double_indirect_block nested_device 100000 24 direct_bit)
          (\<lambda>(cs, stop). Inr ((if direct_bit AND indirect_bit \<noteq> 0 then [24] else []) @ cs, stop))"
    using T [where q = 24] q by blast
  then have t24: "tripple_indirect_block_loop nested_device 100000 direct_bit [24] = Inr ([42, 43], False)"
    by (simp add: nested_24 mask_bits bind_result_def)
  have "tripple_indirect_block_loop nested_device 100000 direct_bit ([26] @ [24]) =
      bind_result (tripple_indirect_block_loop nested_device 100000 direct_bit [24]) (\<lambda>(cs, r). Inr ([42] @ cs, r))"
    using T [where xs = "[26]" and bs = "[42]" and ys = "[24]"] t26 by blast
  then have t2: "tripple_indirect_block_loop nested_device 100000 direct_bit ([26] @ [24]) = Inr ([42, 42, 43], False)"
    by (simp only: t24 bind_result_def sum.case prod.case append.simps)
  have t3: "tripple_indirect_block_loop nested_device 100000 direct_bit ([26] @ 0 # [24]) = Inr ([42, 42, 43], False)"
    using T [where xs = "[26]" and ys = "[24]"] t2 by simp
  have d2': "double_indirect_block_loop nested_device 100000 direct_bit [22, 25] = Inr ([42, 43], False)"
    using d2 by simp
  have f: "\<not> (\<exists>p\<in>set [22, 25]. p \<noteq> 0 \<and> (\<not> p < 100000 \<or>
          (direct_bit AND direct_bit \<noteq> 0 \<and>
           (\<exists>cs. iterate_over_all_blocks_of_indirect_block nested_device 100000 p = Inr (cs, True)))))"
    using T [where ps = "[22, 25]" and bs = "[42, 43]" and r = False] d2' by blast
  from i1 i2 d22 d25 d2 d3 t26 t24 t2 t3 f show ?thesis by (intro conjI)
qed


subsection \<open>Directory blocks learned from the journal\<close>

lemma foldl_action_pairs:
  "foldl (\<lambda>m blocknr. directory_inode_action blocknr n m) m bs =
   foldl (\<lambda>m bn. directory_inode_action (fst bn) (snd bn) m) m (map (\<lambda>b. (b, n)) bs)"
  by (induction bs arbitrary: m) simp_all

lemma scan_inode_copies_writes:
  "scan_inode_copies dev bc cs n m = Inr m' \<Longrightarrow>
   m' = foldl (\<lambda>m bn. directory_inode_action (fst bn) (snd bn) m) m (copies_writes dev bc cs n)"
proof (induction cs arbitrary: n m)
  case Nil then show ?case by simp
next
  case (Cons c cs)
  show ?case
  proof (cases "live_directory_copy c")
    case False
    with Cons show ?thesis by (simp add: copy_writes_def)
  next
    case True
    with Cons.prems obtain bs r where w: "iterate_over_all_blocks_of dev bc c direct_bit = Inr (bs, r)"
      and rest: "scan_inode_copies dev bc cs (n + 1) (foldl (\<lambda>m blocknr. directory_inode_action blocknr n m) m bs) = Inr m'"
      by (auto simp: bind_result_def split: sum.splits)
    from Cons.IH[OF rest] True w show ?thesis
      by (simp add: copy_writes_def foldl_action_pairs)
  qed
qed

lemma tag_writes_skip:
  "\<not> (descriptor_type d = dt_tag \<and> is_inode tables (M_blocknr d)) \<Longrightarrow> tag_writes tables dev bc d = []"
  by (auto simp add: tag_writes_def)

lemma tag_writes_read:
  "descriptor_type d = dt_tag \<Longrightarrow> is_inode tables (M_blocknr d) \<Longrightarrow> dev (M_block d) = Some buf \<Longrightarrow>
   tag_writes tables dev bc d = copies_writes dev bc (as_inodes buf) (block_to_inode tables (M_blocknr d))"
  by (simp add: tag_writes_def)

lemma index_directory_inodes_writes:
  "index_directory_inodes tables dev bc ds m = Inr m' \<Longrightarrow>
   m' = foldl (\<lambda>m bn. directory_inode_action (fst bn) (snd bn) m) m (concat (map (tag_writes tables dev bc) ds))"
proof (induction ds arbitrary: m)
  case Nil then show ?case by simp
next
  case (Cons d ds)
  show ?case
  proof (cases "descriptor_type d = dt_tag \<and> is_inode tables (M_blocknr d)")
    case False
    then have "index_directory_inodes tables dev bc ds m = Inr m'" using Cons.prems by (auto split: if_splits)
    from Cons.IH[OF this] tag_writes_skip[OF False] show ?thesis by simp
  next
    case True
    with Cons.prems obtain buf m1 where b: "dev (M_block d) = Some buf"
      and s: "scan_inode_copies dev bc (as_inodes buf) (block_to_inode tables (M_blocknr d)) m = Inr m1"
      and rest: "index_directory_inodes tables dev bc ds m1 = Inr m'"
      by (auto simp: bind_result_def get_block_def split: sum.splits option.splits)
    from True b have "tag_writes tables dev bc d = copies_writes dev bc (as_inodes buf) (block_to_inode tables (M_blocknr d))"
      by (simp add: tag_writes_read)
    with Cons.IH[OF rest] scan_inode_copies_writes[OF s] show ?thesis
      by simp
  qed
qed

lemma foldl_action_map_of:
  "foldl (\<lambda>m bn. directory_inode_action (fst bn) (snd bn) m) m W = m ++ map_of (rev W)"
proof (induction W arbitrary: m)
  case Nil then show ?case by simp
next
  case (Cons w W)
  have "foldl (\<lambda>m bn. directory_inode_action (fst bn) (snd bn) m) m (w # W)
      = foldl (\<lambda>m bn. directory_inode_action (fst bn) (snd bn) m) (directory_inode_action (fst w) (snd w) m) W"
    by (simp only: foldl.simps)
  also have "\<dots> = directory_inode_action (fst w) (snd w) m ++ map_of (rev W)" by (rule Cons.IH)
  also have "directory_inode_action (fst w) (snd w) m = m(fst w \<mapsto> snd w)"
    by (simp only: directory_inode_action_def)
  also have "m(fst w \<mapsto> snd w) ++ map_of (rev W) = m ++ map_of (rev (w # W))"
    by (rule ext) (auto simp: map_add_def split: option.splits)
  finally show ?case .
qed

lemma map_of_rev_append_cases:
  "(m ++ map_of (rev (W1 @ W2))) b = (case map_of (rev W2) b of Some x \<Rightarrow> Some x | None \<Rightarrow> (m ++ map_of (rev W1)) b)"
  by (auto simp: map_add_def split: option.splits)


lemma sorted_descriptors_snoc:
  "sorted_descriptors (ds @ [d]) \<Longrightarrow>
   sorted_descriptors ds \<and> (\<forall>d'\<in>set ds. M_sequence d' \<le> M_sequence d)"
  by (auto simp: sorted_descriptors_def sorted_wrt_append AllDescriptorsPred_def not_less)

lemma last_writer_has_largest_sequence:
  "sorted_descriptors ds \<Longrightarrow> map_of (rev (concat (map tw ds))) b = Some ino \<Longrightarrow>
   \<exists>d\<in>set ds. (b, ino) \<in> set (tw d) \<and>
     (\<forall>d'\<in>set ds. b \<in> fst ` set (tw d') \<longrightarrow> M_sequence d' \<le> M_sequence d)"
proof (induction ds arbitrary: ino rule: rev_induct)
  case Nil then show ?case by simp
next
  case (snoc d ds)
  from sorted_descriptors_snoc[OF snoc.prems(1)]
  have sd: "sorted_descriptors ds" and le: "\<forall>d'\<in>set ds. M_sequence d' \<le> M_sequence d" by auto
  have split: "map_of (rev (concat (map tw (ds @ [d])))) b =
      (case map_of (rev (tw d)) b of Some x \<Rightarrow> Some x | None \<Rightarrow> map_of (rev (concat (map tw ds))) b)"
    by (simp add: map_add_def split: option.splits)
  show ?case
  proof (cases "map_of (rev (tw d)) b")
    case (Some x)
    with snoc.prems(2) split have "x = ino" by simp
    with Some have "(b, ino) \<in> set (tw d)" by (auto dest: map_of_SomeD)
    with le show ?thesis by auto
  next
    case None
    then have nb: "b \<notin> fst ` set (tw d)" by (simp add: map_of_eq_None_iff)
    from None snoc.prems(2) split have "map_of (rev (concat (map tw ds))) b = Some ino" by simp
    from snoc.IH[OF sd this] obtain d0 where "d0 \<in> set ds" "(b, ino) \<in> set (tw d0)"
      "\<forall>d'\<in>set ds. b \<in> fst ` set (tw d') \<longrightarrow> M_sequence d' \<le> M_sequence d0" by blast
    with nb show ?thesis by auto
  qed
qed

lemma scan_inode_copies_walks:
  "scan_inode_copies dev bc cs n m = Inr m' \<Longrightarrow> c \<in> set cs \<Longrightarrow> live_directory_copy c \<Longrightarrow>
   \<exists>bs r. iterate_over_all_blocks_of dev bc c direct_bit = Inr (bs, r)"
proof (induction cs arbitrary: n m)
  case Nil then show ?case by simp
next
  case (Cons a cs)
  show ?case
  proof (cases "live_directory_copy a")
    case False
    with Cons.prems have "scan_inode_copies dev bc cs (n + 1) m = Inr m'" "c \<in> set cs" by auto
    from Cons.IH[OF this Cons.prems(3)] show ?thesis .
  next
    case True
    with Cons.prems(1) obtain bs r m1 where w: "iterate_over_all_blocks_of dev bc a direct_bit = Inr (bs, r)"
      and rest: "scan_inode_copies dev bc cs (n + 1) m1 = Inr m'"
      by (auto simp: bind_result_def split: sum.splits)
    show ?thesis
    proof (cases "c = a")
      case True with w show ?thesis by blast
    next
      case False
      with Cons.prems(2) have "c \<in> set cs" by simp
      from Cons.IH[OF rest this Cons.prems(3)] show ?thesis .
    qed
  qed
qed

lemma index_directory_inodes_walks:
  "index_directory_inodes tables dev bc ds m = Inr m' \<Longrightarrow> d \<in> set ds \<Longrightarrow>
   descriptor_type d = dt_tag \<Longrightarrow> is_inode tables (M_blocknr d) \<Longrightarrow>
   \<exists>buf. dev (M_block d) = Some buf \<and>
     (\<forall>c\<in>set (as_inodes buf). live_directory_copy c \<longrightarrow>
        (\<exists>bs r. iterate_over_all_blocks_of dev bc c direct_bit = Inr (bs, r)))"
proof (induction ds arbitrary: m)
  case Nil then show ?case by simp
next
  case (Cons a ds)
  show ?case
  proof (cases "descriptor_type a = dt_tag \<and> is_inode tables (M_blocknr a)")
    case False
    then have "index_directory_inodes tables dev bc ds m = Inr m'" using Cons.prems(1) by (auto split: if_splits)
    moreover from False Cons.prems have "d \<in> set ds" by auto
    ultimately show ?thesis using Cons.IH Cons.prems(3,4) by blast
  next
    case True
    with Cons.prems(1) obtain buf m1 where b: "dev (M_block a) = Some buf"
      and s: "scan_inode_copies dev bc (as_inodes buf) (block_to_inode tables (M_blocknr a)) m = Inr m1"
      and rest: "index_directory_inodes tables dev bc ds m1 = Inr m'"
      by (auto simp: bind_result_def get_block_def split: sum.splits option.splits)
    show ?thesis
    proof (cases "d = a")
      case True
      with b scan_inode_copies_walks[OF s] show ?thesis by blast
    next
      case False
      with Cons.prems(2) have "d \<in> set ds" by simp
      from Cons.IH[OF rest this Cons.prems(3,4)] show ?thesis .
    qed
  qed
qed

lemma directory_not_symlink: "is_directory inode \<Longrightarrow> \<not> is_symlink inode"
  by (auto simp: is_directory_def is_symlink_def)

lemma walk_starts_with_direct_blocks:
  "iterate_over_all_blocks_of dev bc inode indirect_mask = Inr (bs, r) \<Longrightarrow>
   \<not> (is_symlink inode \<and> blocks inode = 0) \<Longrightarrow>
   \<exists>rest. bs = direct_blocks inode indirect_mask @ rest"
  by (auto simp: iterate_over_all_blocks_of_def bind_result_def split: sum.splits if_splits prod.splits)

lemma first_block_walked:
  assumes "live_directory_copy c" "iterate_over_all_blocks_of dev bc c direct_bit = Inr (bs, r)"
  shows "block c 0 \<in> set bs"
proof -
  from assms(1) have "\<not> (is_symlink c \<and> blocks c = 0)" "block c 0 \<noteq> 0"
    by (auto simp: live_directory_copy_def directory_not_symlink)
  from walk_starts_with_direct_blocks[OF assms(2) this(1)] obtain rest
    where "bs = direct_blocks c direct_bit @ rest" by blast
  moreover have "block c 0 \<in> set (direct_blocks c direct_bit)"
    using \<open>block c 0 \<noteq> 0\<close> by (simp add: direct_blocks_def direct_bit_def EXT3_NDIR_BLOCKS_def)
  ultimately show ?thesis by simp
qed

lemma copies_writes_nth:
  "i < length cs \<Longrightarrow> b \<in> set (copy_writes dev bc (cs ! i)) \<Longrightarrow>
   (b, n + int i) \<in> set (copies_writes dev bc cs n)"
proof (induction cs arbitrary: i n)
  case Nil then show ?case by simp
next
  case (Cons c cs)
  show ?case
  proof (cases i)
    case 0 with Cons.prems show ?thesis by simp
  next
    case (Suc j)
    with Cons.prems have "j < length cs" "b \<in> set (copy_writes dev bc (cs ! j))" by simp_all
    from Cons.IH[OF this, of "n + 1"] Suc show ?thesis by (simp add: algebra_simps)
  qed
qed


lemma ex_index: "index_descriptors [tag7, tag12] empty_index = Inr two_tag_index"
  by (simp add: index_descriptor_def transaction_of_def tag7_def tag12_def empty_index_def two_tag_index_def
     bind_result_def add_block_in_journal_descriptor_def add_block_descriptor_def Let_def)

lemma ex_dirs: "index_directory_inodes journal_tables journal_device 100000 [tag7, tag12] Map.empty = Inr [500 \<mapsto> 19]"
  by (simp add: tag7_def tag12_def journal_tables_def journal_device_def get_block_def bind_result_def inode_block_def
     live_directory_copy_def is_directory_def dir_inode_def live_file_def dead_inode_def no_device_def
     iterate_over_all_blocks_of_def ind_stage_def dind_stage_def tind_stage_def is_symlink_def direct_blocks_def direct_slots
     no_blocks_def direct_bit_def EXT3_IND_BLOCK_def EXT3_DIND_BLOCK_def EXT3_TIND_BLOCK_def directory_inode_action_def)


text \<open>
  Claim C7, amended. While the journal index is built, every inode copy in the data block
  of every tag of an inode-table block is looked at, and for each copy that has directory
  mode, \<open>dtime = 0\<close>, \<open>atime \<noteq> 0\<close> and a non-zero first block pointer the pair of
  first block and inode number is written into \<open>block_to_dir_inode_map\<close>. The map at
  the end is all the writes applied in the order of the sorted descriptors, a later write
  replacing an earlier one, so the inode number kept for a block was written by a tag
  whose sequence number is the highest among the tags that wrote that block.
\<close>

theorem journal_directory_blocks_last_write_wins:
  assumes "sorted_descriptors ds"
    and "index_directory_inodes tables dev bc ds Map.empty = Inr m"
  shows "(\<forall>d\<in>set ds. \<forall>buf i.
            descriptor_type d = dt_tag \<and> is_inode tables (M_blocknr d) \<and>
            dev (M_block d) = Some buf \<and> i < length (as_inodes buf) \<and>
            live_directory_copy (as_inodes buf ! i) \<longrightarrow>
              (block (as_inodes buf ! i) 0, block_to_inode tables (M_blocknr d) + int i)
                 \<in> set (tag_writes tables dev bc d) \<and>
              block (as_inodes buf ! i) 0 \<in> dom m) \<and>
         m = foldl (\<lambda>m bn. directory_inode_action (fst bn) (snd bn) m) Map.empty
               (concat (map (tag_writes tables dev bc) ds)) \<and>
         (\<forall>b ino. m b = Some ino \<longrightarrow>
            (\<exists>d\<in>set ds. (b, ino) \<in> set (tag_writes tables dev bc d) \<and>
               (\<forall>d'\<in>set ds. b \<in> fst ` set (tag_writes tables dev bc d') \<longrightarrow>
                  M_sequence d' \<le> M_sequence d)))"
proof -
  let ?W = "concat (map (tag_writes tables dev bc) ds)"
  have m: "m = foldl (\<lambda>m bn. directory_inode_action (fst bn) (snd bn) m) Map.empty ?W"
    using assms(2) by (rule index_directory_inodes_writes)
  then have mo: "m = map_of (rev ?W)" by (simp add: foldl_action_map_of)
  have A: "(block (as_inodes buf ! i) 0, block_to_inode tables (M_blocknr d) + int i)
                 \<in> set (tag_writes tables dev bc d) \<and>
              block (as_inodes buf ! i) 0 \<in> dom m"
    if d: "d \<in> set ds" and h: "descriptor_type d = dt_tag \<and> is_inode tables (M_blocknr d) \<and>
            dev (M_block d) = Some buf \<and> i < length (as_inodes buf) \<and>
            live_directory_copy (as_inodes buf ! i)" for d buf i
  proof -
    let ?c = "as_inodes buf ! i"
    from index_directory_inodes_walks[OF assms(2) d] h
    obtain bs r where w: "iterate_over_all_blocks_of dev bc ?c direct_bit = Inr (bs, r)"
      by (metis nth_mem option.inject)
    from h have live: "live_directory_copy ?c" by simp
    from first_block_walked[OF live w] w live have "block ?c 0 \<in> set (copy_writes dev bc ?c)"
      by (simp add: copy_writes_def)
    with h have "(block ?c 0, block_to_inode tables (M_blocknr d) + int i)
        \<in> set (copies_writes dev bc (as_inodes buf) (block_to_inode tables (M_blocknr d)))"
      by (simp add: copies_writes_nth)
    with h have in_d: "(block ?c 0, block_to_inode tables (M_blocknr d) + int i) \<in> set (tag_writes tables dev bc d)"
      by (simp add: tag_writes_read)
    with d have "block ?c 0 \<in> fst ` set ?W" by force
    then have "map_of (rev ?W) (block ?c 0) \<noteq> None" by (simp add: map_of_eq_None_iff)
    with mo in_d show ?thesis by auto
  qed
  have B: "\<exists>d\<in>set ds. (b, ino) \<in> set (tag_writes tables dev bc d) \<and>
               (\<forall>d'\<in>set ds. b \<in> fst ` set (tag_writes tables dev bc d') \<longrightarrow>
                  M_sequence d' \<le> M_sequence d)" if "m b = Some ino" for b ino
    using last_writer_has_largest_sequence[OF assms(1), of "tag_writes tables dev bc" b ino] that mo
    by simp
  from A m B show ?thesis by blast
qed

theorem journal_directory_blocks_last_write_wins_witness:
  "sorted_descriptors [tag7, tag12] \<and>
   index_directory_inodes journal_tables journal_device 100000 [tag7, tag12] Map.empty = Inr [500 \<mapsto> 19] \<and>
   tag_writes journal_tables journal_device 100000 tag7 = [(500, 17)] \<and>
   tag_writes journal_tables journal_device 100000 tag12 = [(500, 19)] \<and>
   M_sequence tag7 = 7 \<and> M_sequence tag12 = 12 \<and>
   500 \<in> dom [500 \<mapsto> (19 :: int)] \<and>
   (\<exists>d\<in>set [tag7, tag12]. (500, 19) \<in> set (tag_writes journal_tables journal_device 100000 d) \<and>
      M_sequence tag7 \<le> M_sequence d \<and> M_sequence tag12 \<le> M_sequence d)"
proof -
  have s: "sorted_descriptors [tag7, tag12]"
    by (simp add: sorted_descriptors_def AllDescriptorsPred_def tag7_def tag12_def)
  have r: "index_directory_inodes journal_tables journal_device 100000 [tag7, tag12] Map.empty = Inr [500 \<mapsto> 19]"
    by (rule ex_dirs)
  have w7: "tag_writes journal_tables journal_device 100000 tag7 = [(500, 17)]"
    by (simp add: tag_writes_def copy_writes_def tag7_def journal_tables_def journal_device_def inode_block_def
     live_directory_copy_def is_directory_def dir_inode_def live_file_def dead_inode_def no_device_def
     iterate_over_all_blocks_of_def ind_stage_def dind_stage_def tind_stage_def is_symlink_def direct_blocks_def direct_slots
     no_blocks_def direct_bit_def EXT3_IND_BLOCK_def EXT3_DIND_BLOCK_def EXT3_TIND_BLOCK_def bind_result_def)
  have w12: "tag_writes journal_tables journal_device 100000 tag12 = [(500, 19)]"
    by (simp add: tag_writes_def copy_writes_def tag12_def journal_tables_def journal_device_def inode_block_def
     live_directory_copy_def is_directory_def dir_inode_def live_file_def dead_inode_def no_device_def
     iterate_over_all_blocks_of_def ind_stage_def dind_stage_def tind_stage_def is_symlink_def direct_blocks_def direct_slots
     no_blocks_def direct_bit_def EXT3_IND_BLOCK_def EXT3_DIND_BLOCK_def EXT3_TIND_BLOCK_def bind_result_def)
  note t = journal_directory_blocks_last_write_wins[OF s r]
  from t have "\<forall>b ino. [500 \<mapsto> (19::int)] b = Some ino \<longrightarrow>
            (\<exists>d\<in>set [tag7, tag12]. (b, ino) \<in> set (tag_writes journal_tables journal_device 100000 d) \<and>
               (\<forall>d'\<in>set [tag7, tag12]. b \<in> fst ` set (tag_writes journal_tables journal_device 100000 d') \<longrightarrow>
                  M_sequence d' \<le> M_sequence d))" by blast
  then have "\<exists>d\<in>set [tag7, tag12]. (500, 19) \<in> set (tag_writes journal_tables journal_device 100000 d) \<and>
               (\<forall>d'\<in>set [tag7, tag12]. 500 \<in> fst ` set (tag_writes journal_tables journal_device 100000 d') \<longrightarrow>
                  M_sequence d' \<le> M_sequence d)" by simp
  then have e: "\<exists>d\<in>set [tag7, tag12]. (500, 19) \<in> set (tag_writes journal_tables journal_device 100000 d) \<and>
      M_sequence tag7 \<le> M_sequence d \<and> M_sequence tag12 \<le> M_sequence d"
    using w7 w12 by auto
  have q: "M_sequence tag7 = 7" "M_sequence tag12 = 12" by (simp_all add: tag7_def tag12_def)
  from s r w7 w12 q e show ?thesis by simp
qed

text \<open>
  Claim C7 as stated fails for a directory in use that was never read: the copy of inode
  17 in journal block 103 has directory mode, \<open>dtime = 0\<close> and first block 500, but its
  \<open>atime\<close> is 0, and the second loop of \<open>init_journal\<close> skips it, so nothing is written
  for block 500.
\<close>

theorem directory_copy_with_zero_atime_not_indexed:
  "descriptor_type tag15 = dt_tag \<and> is_inode journal_tables (M_blocknr tag15) \<and>
   block_to_inode journal_tables (M_blocknr tag15) = 17 \<and>
   journal_device (M_block tag15) =
     Some (inode_block [never_read_dir_inode, dead_inode 0x81a4 250, live_file]) \<and>
   is_directory never_read_dir_inode \<and> dtime never_read_dir_inode = 0 \<and>
   block never_read_dir_inode 0 = 500 \<and> atime never_read_dir_inode = 0 \<and>
   index_directory_inodes journal_tables journal_device 100000 [tag15] Map.empty = Inr Map.empty"
  by (simp add: tag15_def journal_tables_def journal_device_def no_device_def inode_block_def
        never_read_dir_inode_def dead_inode_def live_file_def is_directory_def
        live_directory_copy_def get_block_def bind_result_def)

subsection \<open>Historical copies and the undeleted inode\<close>


lemma vector_of_add_block_descriptor:
  "vector_of (add_block_descriptor b d m) blk = vector_of m blk @ (if b = blk then [d] else [])"
  by (auto simp: vector_of_def add_block_descriptor_def split: option.splits)

lemma vector_of_foldl_add_block_descriptor:
  "vector_of (foldl (\<lambda>m b. add_block_descriptor b d m) m bs) blk =
   vector_of m blk @ map (\<lambda>x. d) (filter (\<lambda>x. x = blk) bs)"
  by (induction bs arbitrary: m) (simp_all add: vector_of_add_block_descriptor)

lemma descriptors_of_vector: "descriptors_of idx blk = vector_of (block_to_descriptors_map idx) blk"
  by (simp add: descriptors_of_def vector_of_def vector_of_def)

lemma add_block_descriptors_entries:
  "add_block_descriptors d idx = Inr idx' \<Longrightarrow>
   descriptors_of idx' blk = descriptors_of idx blk @ block_entries blk d"
  by (cases d)
     (auto simp: descriptors_of_vector bind_result_def vector_of_add_block_descriptor
        vector_of_foldl_add_block_descriptor split: sum.splits)

lemma index_descriptor_entries:
  "index_descriptor d idx = Inr idx' \<Longrightarrow>
   descriptors_of idx' blk = descriptors_of idx blk @ block_entries blk d"
proof (cases "descriptor_type d = dt_commit")
  case True
  assume a: "index_descriptor d idx = Inr idx'"
  from True obtain b s where d: "d = DescriptorCommit b s" by (cases d) auto
  from a True have "block_to_descriptors_map idx' = block_to_descriptors_map idx"
    by (auto simp: index_descriptor_def Let_def split: option.splits if_splits)
  with d show ?thesis by (simp add: descriptors_of_def vector_of_def)
next
  case False
  assume a: "index_descriptor d idx = Inr idx'"
  let ?idx1 = "idx\<lparr> sequence_transaction_map :=
                      (sequence_transaction_map idx)(M_sequence d \<mapsto> (transaction_of d (sequence_transaction_map idx))\<lparr> T_descriptor := T_descriptor (transaction_of d (sequence_transaction_map idx)) @ [d] \<rparr>) \<rparr>"
  from a False have "add_block_descriptors d ?idx1 = Inr idx'"
    by (simp add: index_descriptor_def Let_def)
  from add_block_descriptors_entries[OF this, of blk] show ?thesis
    by (simp add: descriptors_of_def vector_of_def)
qed

lemma index_descriptors_entries:
  "index_descriptors ds idx = Inr idx' \<Longrightarrow>
   descriptors_of idx' blk = descriptors_of idx blk @ concat (map (block_entries blk) ds)"
proof (induction ds arbitrary: idx)
  case Nil then show ?case by simp
next
  case (Cons d ds)
  from Cons.prems obtain idx1 where 1: "index_descriptor d idx = Inr idx1"
    and 2: "index_descriptors ds idx1 = Inr idx'"
    by (auto simp: bind_result_def split: sum.splits)
  from Cons.IH[OF 2] index_descriptor_entries[OF 1, of blk] show ?case by simp
qed

lemma block_entries_sequence: "e \<in> set (block_entries blk d) \<Longrightarrow> e = d"
  by (cases d) (auto split: if_splits)

lemma sorted_descriptors_Cons:
  "sorted_descriptors (d # ds) \<longleftrightarrow> (\<forall>d'\<in>set ds. M_sequence d \<le> M_sequence d') \<and> sorted_descriptors ds"
  by (auto simp: sorted_descriptors_def AllDescriptorsPred_def not_less)

lemma sorted_map_const: "sorted (map (\<lambda>x. c :: 'a :: linorder) xs)"
  by (induction xs) simp_all

lemma sorted_le_last: "sorted xs \<Longrightarrow> x \<in> set xs \<Longrightarrow> x \<le> last (xs :: 'a :: linorder list)"
  by (induction xs) auto

lemma sorted_block_entries:
  "sorted_descriptors ds \<Longrightarrow> sorted (map M_sequence (concat (map (block_entries blk) ds)))"
proof (induction ds)
  case Nil then show ?case by simp
next
  case (Cons d ds)
  then have le: "\<forall>d'\<in>set ds. M_sequence d \<le> M_sequence d'" and sd: "sorted_descriptors ds"
    by (simp_all add: sorted_descriptors_Cons)
  have 1: "sorted (map M_sequence (block_entries blk d))"
    by (cases d) (simp_all add: sorted_map_const comp_def)
  have "\<forall>x\<in>set (block_entries blk d). \<forall>y\<in>set (concat (map (block_entries blk) ds)). M_sequence x \<le> M_sequence y"
    using le by (auto dest!: block_entries_sequence)
  with 1 Cons.IH[OF sd] show ?case by (simp add: sorted_append)
qed

lemma journal_copies_sequences:
  "journal_copies dev blk slot ds = Inr cs \<Longrightarrow>
   map fst cs = map M_sequence (filter (\<lambda>d. descriptor_type d = dt_tag) ds)"
proof (induction ds arbitrary: cs)
  case Nil then show ?case by simp
next
  case (Cons d ds)
  show ?case
  proof (cases "descriptor_type d = dt_tag")
    case False with Cons show ?thesis by simp
  next
    case True
    with Cons.prems obtain rest and buf :: block_buf where "journal_copies dev blk slot ds = Inr rest"
      "cs = (M_sequence d, as_inodes buf ! nat slot) # rest"
      by (auto simp: bind_result_def split: sum.splits if_splits)
    with Cons.IH[of rest] True show ?thesis by simp
  qed
qed

lemma get_inodes_from_journal_alt:
  "get_inodes_from_journal tables dev idx n =
   journal_copies dev (inode_to_block tables n) (n - block_to_inode tables (inode_to_block tables n))
     (rev (descriptors_of idx (inode_to_block tables n)))"
  by (simp add: get_inodes_from_journal_def descriptors_of_def vector_of_def Let_def split: option.splits)

lemma descriptors_of_empty_index: "descriptors_of empty_index blk = []"
  by (simp add: descriptors_of_def vector_of_def empty_index_def)

lemma copies_descending:
  assumes "sorted_descriptors ds" "index_descriptors ds empty_index = Inr idx"
    "get_inodes_from_journal tables dev idx n = Inr copies"
  shows "sorted (rev (map fst copies))"
proof -
  let ?blk = "inode_to_block tables n"
  let ?v = "descriptors_of idx ?blk"
  have v: "?v = concat (map (block_entries ?blk) ds)"
    using index_descriptors_entries[OF assms(2), of ?blk] by (simp add: descriptors_of_empty_index)
  have "map fst copies = map M_sequence (filter (\<lambda>d. descriptor_type d = dt_tag) (rev ?v))"
    using assms(3) unfolding get_inodes_from_journal_alt by (rule journal_copies_sequences)
  then have "rev (map fst copies) = map M_sequence (filter (\<lambda>d. descriptor_type d = dt_tag) ?v)"
    by (simp add: rev_map rev_filter)
  moreover have "sorted (map M_sequence ?v)" unfolding v using assms(1) by (rule sorted_block_entries)
  ultimately show ?thesis by (simp add: sorted_filter)
qed

lemma find_largest_bound:
  assumes "sorted_descriptors ds" "index_descriptors ds empty_index = Inr idx"
    "d \<in> set ds" "descriptor_type d = dt_tag"
  shows "\<exists>s. find_largest_journal_sequence_number idx (M_blocknr d) = Inr s \<and> M_sequence d \<le> s"
proof -
  let ?blk = "M_blocknr d"
  let ?v = "descriptors_of idx ?blk"
  have v: "?v = concat (map (block_entries ?blk) ds)"
    using index_descriptors_entries[OF assms(2), of ?blk] by (simp add: descriptors_of_empty_index)
  from assms(4) have "d \<in> set (block_entries ?blk d)" by (cases d) auto
  with assms(3) have dv: "d \<in> set ?v" unfolding v by auto
  then have ne: "?v \<noteq> []" by auto
  then obtain w where w: "block_to_descriptors_map idx ?blk = Some w" "w = ?v"
    by (auto simp: descriptors_of_def vector_of_def split: option.splits)
  have "sorted (map M_sequence ?v)" unfolding v using assms(1) by (rule sorted_block_entries)
  then have "M_sequence d \<le> last (map M_sequence ?v)"
    using dv by (intro sorted_le_last) auto
  then have "M_sequence d \<le> M_sequence (last ?v)"
    using ne by (simp add: last_map)
  with w ne show ?thesis by (simp add: find_largest_journal_sequence_number_def)
qed


lemma first_undeleted_copy_found:
  "\<forall>sc\<in>set pre. dtime (snd sc) \<noteq> 0 \<and> \<not> inode_too_old after (snd sc) \<Longrightarrow> dtime c = 0 \<Longrightarrow>
   first_undeleted_copy after (pre @ (s, c) # post) = (ui_journal_inode, Some c, Some s)"
  by (induction pre) auto

lemma first_undeleted_copy_too_old:
  "\<forall>sc\<in>set pre. dtime (snd sc) \<noteq> 0 \<and> \<not> inode_too_old after (snd sc) \<Longrightarrow> dtime c \<noteq> 0 \<Longrightarrow>
   inode_too_old after c \<Longrightarrow>
   first_undeleted_copy after (pre @ (s, c) # post) = (ui_inode_too_old, None, None)"
  by (induction pre) auto


lemma sdiv_nonneg: "0 \<le> a \<Longrightarrow> 0 < b \<Longrightarrow> (a :: int) sdiv b = a div b"
  by (simp add: signed_divide_int_def sgn_if)

lemma get_inode_zero:
  assumes "1 < inodes_per_group tables"
  shows "get_inode tables 0 = Inl Assertion_failed"
proof -
  have "(-1 :: int) sdiv inodes_per_group tables = 0"
    using assms by (simp add: signed_divide_int_def sgn_if)
  moreover have "\<not> (word_of_int (-1) :: 32 word) < w" for w
    by (simp add: not_less)
  ultimately show ?thesis using assms by (simp add: get_inode_def Let_def)
qed


lemma uint_word_of_int_32: "uint (word_of_int k :: 32 word) = k mod 2 ^ 32"
  by (simp add: uint_word_of_int take_bit_eq_mod)

lemma uint_8_times:
  assumes "0 \<le> b" "8 * b < 2 ^ 32"
  shows "uint (8 * word_of_int b :: 32 word) = 8 * b"
proof -
  have e: "(8 * word_of_int b :: 32 word) = word_of_int (8 * b)" by simp
  show ?thesis unfolding e uint_word_of_int_32 using assms by simp
qed

lemma get_inode_valid:
  assumes "0 < n" and "0 < inodes_per_group tables"
    and "inodes_per_group tables \<le> 8 * block_size tables"
    and "8 * block_size tables < 2 ^ 32"
    and "(n - 1) div inodes_per_group tables < groups tables"
    and "all_inodes tables ((n - 1) div inodes_per_group tables) = Some inodes"
    and "length inodes = nat (inodes_per_group tables)"
  shows "get_inode tables n = Inr (inodes ! nat ((n - 1) mod inodes_per_group tables))"
proof -
  let ?ipg = "inodes_per_group tables"
  let ?r = "(n - 1) mod ?ipg"
  have g: "(n - 1) sdiv ?ipg = (n - 1) div ?ipg"
    using assms(1,2) by (simp add: sdiv_nonneg)
  have r: "n - 1 - (n - 1) div ?ipg * ?ipg = ?r"
    by (simp add: minus_div_mult_eq_mod)
  have r0: "0 \<le> ?r" "?r < ?ipg" using assms(2) by simp_all
  then have rb: "?r < 2 ^ 32" "?r < 8 * block_size tables" using assms(3,4) by linarith+
  have bs: "0 \<le> 8 * block_size tables" using assms(2,3) by linarith
  have u: "unat (word_of_int ?r :: 32 word) = nat ?r"
    using r0 rb by (simp add: unat_eq_nat_uint uint_word_of_int take_bit_eq_mod)
  have "uint (word_of_int ?r :: 32 word) = ?r"
    using r0 rb by (simp add: uint_word_of_int take_bit_eq_mod)
  moreover have "uint (8 * word_of_int (block_size tables) :: 32 word) = 8 * block_size tables"
    using bs assms(4) by (intro uint_8_times) simp_all
  ultimately have lt: "(word_of_int ?r :: 32 word) < 8 * word_of_int (block_size tables)"
    using rb by (simp only: word_less_def)
  have grp: "\<not> ((n - 1) div ?ipg < 0 \<or> groups tables \<le> (n - 1) div ?ipg)"
    using assms(1,2,5) by (simp add: pos_imp_zdiv_neg_iff not_le)
  have len: "nat ?r < length inodes" using r0 assms(7) by simp
  from assms(2) have nz: "?ipg \<noteq> 0" by simp
  show ?thesis
    unfolding get_inode_def Let_def g r
    using nz lt grp assms(6) len by (simp add: u)
qed

lemma get_inode_not_positive:
  assumes "n \<le> 0" and "0 < inodes_per_group tables" and "inodes_per_group tables \<le> 2 ^ 31"
    and "0 \<le> block_size tables" and "block_size tables \<le> 2 ^ 28"
  shows "get_inode tables n = Inl Assertion_failed \<or> get_inode tables n = Inl Wild_pointer"
proof -
  let ?ipg = "inodes_per_group tables"
  let ?q = "(1 - n) div ?ipg"
  have g: "(n - 1) sdiv ?ipg = - ?q"
    using assms(1,2) by (simp add: signed_divide_int_def sgn_if abs_if)
  from assms(2) have nz: "?ipg \<noteq> 0" by simp
  have q0: "0 \<le> ?q" using assms(1,2) by (simp add: pos_imp_zdiv_nonneg_iff)
  show ?thesis
  proof (cases "?q = 0")
    case False
    with q0 have "- ?q < 0" by simp
    then show ?thesis unfolding get_inode_def Let_def g using nz by simp
  next
    case True
    have small: "1 - n < ?ipg"
      using True assms(2) pos_imp_zdiv_pos_iff [of ?ipg "1 - n"] by linarith
    have w: "uint (word_of_int (n - 1) :: 32 word) = 2 ^ 32 + (n - 1)"
    proof -
      have "(n - 1) mod 2 ^ 32 = (2 ^ 32 + (n - 1)) mod 2 ^ 32"
        by (simp only: mod_add_self1)
      also have "\<dots> = 2 ^ 32 + (n - 1)"
        using small assms(1,3) by (intro mod_pos_pos_trivial) simp_all
      finally show ?thesis by (simp only: uint_word_of_int_32)
    qed
    have b: "uint (8 * word_of_int (block_size tables) :: 32 word) = 8 * block_size tables"
      using assms(4,5) by (intro uint_8_times) simp_all
    have "\<not> (word_of_int (n - 1) :: 32 word) < 8 * word_of_int (block_size tables)"
      unfolding word_less_def w b using small assms(3,5) by simp
    then show ?thesis unfolding get_inode_def Let_def g True using nz by simp
  qed
qed


lemma filter_tags_block_entries:
  "filter (\<lambda>d. descriptor_type d = dt_tag) (concat (map (block_entries blk) ds)) = tags_of blk ds"
proof (induction ds)
  case Nil then show ?case by (simp add: tags_of_def)
next
  case (Cons d ds)
  then show ?case by (cases d) (auto simp: tags_of_def)
qed

lemma block_entries_tag_block:
  "d \<in> set (concat (map (block_entries blk) ds)) \<Longrightarrow> descriptor_type d = dt_tag \<Longrightarrow> M_blocknr d = blk"
proof -
  assume "d \<in> set (concat (map (block_entries blk) ds))" and t: "descriptor_type d = dt_tag"
  then obtain d' where "d' \<in> set ds" "d \<in> set (block_entries blk d')" by auto
  then have "d \<in> set (block_entries blk d)" using block_entries_sequence by blast
  with t show ?thesis by (cases d) (auto split: if_splits)
qed

lemma set_block_entries:
  "set (concat (map (block_entries blk) ds)) = {d \<in> set ds. references_block blk d}"
proof (induction ds)
  case Nil then show ?case by simp
next
  case (Cons d ds)
  have "set (block_entries blk d) = (if references_block blk d then {d} else {})"
    by (cases d) auto
  with Cons show ?case by auto
qed

lemma journal_copies_shape:
  assumes "\<forall>d\<in>set xs. descriptor_type d = dt_tag \<longrightarrow> M_blocknr d = blk"
    and "journal_copies dev blk slot xs = Inr cs"
  shows "list_all2 (copy_of_tag dev slot) (filter (\<lambda>d. descriptor_type d = dt_tag) xs) cs"
  using assms
proof (induction xs arbitrary: cs)
  case Nil then show ?case by simp
next
  case (Cons d xs)
  show ?case
  proof (cases "descriptor_type d = dt_tag")
    case False with Cons show ?thesis by simp
  next
    case True
    with Cons.prems(1) have b: "M_blocknr d = blk" by simp
    from Cons.prems(2) True b obtain buf rest where
      1: "dev (M_block d) = Some buf" and 2: "0 \<le> slot \<and> nat slot < length (as_inodes buf)"
      and 3: "journal_copies dev blk slot xs = Inr rest"
      and 4: "cs = (M_sequence d, as_inodes buf ! nat slot) # rest"
      by (auto simp: bind_result_def get_block_def split: sum.splits if_splits option.splits)
    from Cons.IH [OF _ 3] Cons.prems(1)
    have "list_all2 (copy_of_tag dev slot) (filter (\<lambda>d. descriptor_type d = dt_tag) xs) rest" by simp
    moreover have "copy_of_tag dev slot d (M_sequence d, as_inodes buf ! nat slot)"
      using 1 2 by (simp add: copy_of_tag_def)
    ultimately show ?thesis using True 4 by simp
  qed
qed

lemma journal_copies_total:
  assumes "\<forall>d\<in>set xs. descriptor_type d = dt_tag \<longrightarrow> M_blocknr d = blk"
    and "\<forall>d\<in>set (filter (\<lambda>d. descriptor_type d = dt_tag) xs). \<exists>sc. copy_of_tag dev slot d sc"
  shows "\<exists>cs. journal_copies dev blk slot xs = Inr cs"
  using assms
proof (induction xs)
  case Nil then show ?case by simp
next
  case (Cons d xs)
  from Cons obtain rest where r: "journal_copies dev blk slot xs = Inr rest" by auto
  show ?case
  proof (cases "descriptor_type d = dt_tag")
    case False with r show ?thesis by simp
  next
    case True
    with Cons.prems(1) have b: "M_blocknr d = blk" by simp
    from Cons.prems(2) True obtain sc where "copy_of_tag dev slot d sc" by auto
    then obtain buf where "dev (M_block d) = Some buf" "0 \<le> slot \<and> nat slot < length (as_inodes buf)"
      by (auto simp: copy_of_tag_def split: option.splits)
    with True b r show ?thesis by (simp add: bind_result_def get_block_def)
  qed
qed

lemma journal_copies_failure:
  assumes "\<forall>d\<in>set xs. descriptor_type d = dt_tag \<longrightarrow> M_blocknr d = blk"
    and "d \<in> set xs" "descriptor_type d = dt_tag" "\<not> (\<exists>sc. copy_of_tag dev slot d sc)"
  shows "\<exists>e. journal_copies dev blk slot xs = Inl e"
proof (cases "journal_copies dev blk slot xs")
  case (Inl e) then show ?thesis by simp
next
  case (Inr cs)
  from journal_copies_shape [OF assms(1) Inr]
  have la: "list_all2 (copy_of_tag dev slot) (filter (\<lambda>d. descriptor_type d = dt_tag) xs) cs" .
  from assms(2,3) have "d \<in> set (filter (\<lambda>d. descriptor_type d = dt_tag) xs)" by simp
  then obtain i where "i < length (filter (\<lambda>d. descriptor_type d = dt_tag) xs)"
    "filter (\<lambda>d. descriptor_type d = dt_tag) xs ! i = d"
    by (meson in_set_conv_nth)
  with list_all2_nthD [OF la] have "copy_of_tag dev slot d (cs ! i)" by auto
  with assms(4) show ?thesis by blast
qed

lemma index_vector:
  assumes "index_descriptors ds empty_index = Inr idx"
  shows "descriptors_of idx blk = concat (map (block_entries blk) ds)"
  using index_descriptors_entries [OF assms, of blk] by (simp add: descriptors_of_empty_index)

lemma get_inodes_from_journal_index:
  assumes "index_descriptors ds empty_index = Inr idx"
  shows "get_inodes_from_journal tables dev idx n =
    journal_copies dev (inode_to_block tables n) (n - block_to_inode tables (inode_to_block tables n))
      (rev (concat (map (block_entries (inode_to_block tables n)) ds)))"
  unfolding get_inodes_from_journal_alt index_vector [OF assms] ..

lemma rev_entries_tag_block:
  "\<forall>d\<in>set (rev (concat (map (block_entries blk) ds))). descriptor_type d = dt_tag \<longrightarrow> M_blocknr d = blk"
  using block_entries_tag_block by auto

lemma rev_entries_tags:
  "filter (\<lambda>d. descriptor_type d = dt_tag) (rev (concat (map (block_entries blk) ds))) = rev (tags_of blk ds)"
  by (simp add: rev_filter [symmetric] filter_tags_block_entries)

lemma copies_shape:
  assumes "index_descriptors ds empty_index = Inr idx"
    and "get_inodes_from_journal tables dev idx n = Inr copies"
  shows "list_all2 (copy_of_tag dev (n - block_to_inode tables (inode_to_block tables n)))
           (rev (tags_of (inode_to_block tables n) ds)) copies"
  using journal_copies_shape [OF rev_entries_tag_block assms(2) [unfolded get_inodes_from_journal_index [OF assms(1)]]]
  by (simp only: rev_entries_tags)

lemma copies_total:
  assumes "index_descriptors ds empty_index = Inr idx"
    and "\<forall>d\<in>set (tags_of (inode_to_block tables n) ds).
           \<exists>sc. copy_of_tag dev (n - block_to_inode tables (inode_to_block tables n)) d sc"
  shows "\<exists>copies. get_inodes_from_journal tables dev idx n = Inr copies"
  unfolding get_inodes_from_journal_index [OF assms(1)]
  using assms(2) by (intro journal_copies_total rev_entries_tag_block) (simp add: rev_entries_tags)

lemma copies_failure:
  assumes "index_descriptors ds empty_index = Inr idx"
    and "d \<in> set (tags_of (inode_to_block tables n) ds)"
    and "\<not> (\<exists>sc. copy_of_tag dev (n - block_to_inode tables (inode_to_block tables n)) d sc)"
  shows "\<exists>e. get_inodes_from_journal tables dev idx n = Inl e"
proof -
  let ?blk = "inode_to_block tables n"
  have "d \<in> set (filter (\<lambda>d. descriptor_type d = dt_tag) (rev (concat (map (block_entries ?blk) ds))))"
    using assms(2) by (simp only: rev_entries_tags set_rev)
  then have "d \<in> set (rev (concat (map (block_entries ?blk) ds)))" "descriptor_type d = dt_tag"
    by simp_all
  from journal_copies_failure [OF rev_entries_tag_block this assms(3)]
  show ?thesis unfolding get_inodes_from_journal_index [OF assms(1)] .
qed

lemma add_block_descriptor_nonempty:
  "\<forall>blk. m blk \<noteq> Some [] \<Longrightarrow> add_block_descriptor b d m blk \<noteq> Some []"
  by (auto simp: add_block_descriptor_def split: option.splits)

lemma foldl_add_block_descriptor_nonempty:
  "\<forall>blk. m blk \<noteq> Some [] \<Longrightarrow> foldl (\<lambda>m b. add_block_descriptor b d m) m bs blk \<noteq> Some []"
proof (induction bs arbitrary: m blk)
  case Nil then show ?case by simp
next
  case (Cons b bs)
  have "\<forall>blk. add_block_descriptor b d m blk \<noteq> Some []"
    using Cons.prems add_block_descriptor_nonempty by blast
  from Cons.IH [OF this] show ?case by simp
qed

lemma add_block_descriptors_nonempty:
  assumes "add_block_descriptors d idx = Inr idx'" "\<forall>blk. block_to_descriptors_map idx blk \<noteq> Some []"
  shows "block_to_descriptors_map idx' blk \<noteq> Some []"
  using assms
  by (cases d)
     (auto simp: bind_result_def add_block_descriptor_nonempty foldl_add_block_descriptor_nonempty
        split: sum.splits)

lemma index_descriptor_nonempty:
  assumes "index_descriptor d idx = Inr idx'" "\<forall>blk. block_to_descriptors_map idx blk \<noteq> Some []"
  shows "block_to_descriptors_map idx' blk \<noteq> Some []"
proof (cases "descriptor_type d = dt_commit")
  case True
  with assms(1) have "block_to_descriptors_map idx' = block_to_descriptors_map idx"
    by (auto simp: index_descriptor_def Let_def split: option.splits if_splits)
  with assms(2) show ?thesis by simp
next
  case False
  let ?idx1 = "idx\<lparr> sequence_transaction_map :=
                      (sequence_transaction_map idx)(M_sequence d \<mapsto> (transaction_of d (sequence_transaction_map idx))\<lparr> T_descriptor := T_descriptor (transaction_of d (sequence_transaction_map idx)) @ [d] \<rparr>) \<rparr>"
  from assms(1) False have "add_block_descriptors d ?idx1 = Inr idx'"
    by (simp add: index_descriptor_def Let_def)
  from add_block_descriptors_nonempty [OF this] assms(2) show ?thesis by simp
qed

lemma index_descriptors_nonempty:
  assumes "index_descriptors ds idx = Inr idx'" "\<forall>blk. block_to_descriptors_map idx blk \<noteq> Some []"
  shows "block_to_descriptors_map idx' blk \<noteq> Some []"
  using assms
proof (induction ds arbitrary: idx)
  case Nil then show ?case by simp
next
  case (Cons d ds)
  from Cons.prems(1) obtain idx1 where 1: "index_descriptor d idx = Inr idx1"
    and 2: "index_descriptors ds idx1 = Inr idx'"
    by (auto simp: bind_result_def split: sum.splits)
  have "\<forall>blk. block_to_descriptors_map idx1 blk \<noteq> Some []"
    using index_descriptor_nonempty [OF 1 Cons.prems(2)] by blast
  from Cons.IH [OF 2 this] show ?case .
qed

lemma sorted_last_Max:
  "sorted (map f xs) \<Longrightarrow> xs \<noteq> [] \<Longrightarrow> f (last xs) = Max (f ` set xs)"
  for f :: "'a \<Rightarrow> 'b :: linorder"
proof -
  assume s: "sorted (map f xs)" and ne: "xs \<noteq> []"
  have "\<forall>x\<in>set xs. f x \<le> f (last xs)"
  proof
    fix x assume "x \<in> set xs"
    then have "f x \<in> set (map f xs)" by simp
    from sorted_le_last [OF s this] ne show "f x \<le> f (last xs)" by (simp add: last_map)
  qed
  moreover have "f (last xs) \<in> f ` set xs" using ne by simp
  ultimately show ?thesis by (intro Max_eqI [symmetric]) auto
qed

lemma find_largest_exact:
  assumes "sorted_descriptors ds" "index_descriptors ds empty_index = Inr idx"
  shows "find_largest_journal_sequence_number idx blk =
     Inr (if \<exists>d\<in>set ds. references_block blk d
          then Max (M_sequence ` {d \<in> set ds. references_block blk d}) else 0)"
proof -
  let ?v = "concat (map (block_entries blk) ds)"
  have v: "descriptors_of idx blk = ?v" using assms(2) by (rule index_vector)
  have ne: "block_to_descriptors_map idx blk \<noteq> Some []"
    using index_descriptors_nonempty [OF assms(2)] by (simp add: empty_index_def)
  have sv: "set ?v = {d \<in> set ds. references_block blk d}" by (rule set_block_entries)
  show ?thesis
  proof (cases "block_to_descriptors_map idx blk")
    case None
    with v have "?v = []" by (simp add: descriptors_of_def vector_of_def)
    with sv have "\<not> (\<exists>d\<in>set ds. references_block blk d)" by auto
    with None show ?thesis by (simp add: find_largest_journal_sequence_number_def)
  next
    case (Some w)
    with v ne have w: "w = ?v" "?v \<noteq> []" by (simp_all add: descriptors_of_def vector_of_def)
    with sv have ex: "\<exists>d\<in>set ds. references_block blk d"
      by (metis (mono_tags, lifting) empty_Collect_eq set_empty)
    have "sorted (map M_sequence ?v)" using assms(1) by (rule sorted_block_entries)
    from sorted_last_Max [OF this w(2)] sv
    have "M_sequence (last ?v) = Max (M_sequence ` {d \<in> set ds. references_block blk d})" by simp
    with Some w ex show ?thesis by (simp add: find_largest_journal_sequence_number_def)
  qed
qed


lemma find_largest_exact_list:
  assumes "sorted_descriptors ds" "index_descriptors ds empty_index = Inr idx"
  shows "find_largest_journal_sequence_number idx blk =
     Inr (if filter (references_block blk) ds = [] then 0
          else Max (set (map M_sequence (filter (references_block blk) ds))))"
proof -
  have 1: "{d \<in> set ds. references_block blk d} = set (filter (references_block blk) ds)" by auto
  have 2: "(\<exists>d\<in>set ds. references_block blk d) \<longleftrightarrow> filter (references_block blk) ds \<noteq> []"
    by (simp add: filter_empty_conv)
  show ?thesis unfolding find_largest_exact [OF assms] 1 2 by simp
qed

lemma first_undeleted_copy_none:
  "\<forall>sc\<in>set copies. dtime (snd sc) \<noteq> 0 \<and> \<not> inode_too_old after (snd sc) \<Longrightarrow>
   first_undeleted_copy after copies = (ui_no_inode, None, None)"
  by (induction copies) auto

lemma first_undeleted_copy_journalD:
  "first_undeleted_copy after copies = (ui_journal_inode, Some c, Some s) \<Longrightarrow>
   \<exists>pre post. copies = pre @ (s, c) # post \<and> dtime c = 0 \<and>
     (\<forall>sc\<in>set pre. dtime (snd sc) \<noteq> 0 \<and> \<not> inode_too_old after (snd sc))"
proof (induction copies)
  case Nil then show ?case by simp
next
  case (Cons x copies)
  obtain s' c' where x: "x = (s', c')" by (cases x)
  show ?case
  proof (cases "dtime c' = 0")
    case True
    with Cons.prems x have "s' = s" "c' = c" by simp_all
    with True x have "x # copies = [] @ (s, c) # copies \<and> dtime c = 0 \<and>
        (\<forall>sc\<in>set []. dtime (snd sc) \<noteq> 0 \<and> \<not> inode_too_old after (snd sc))" by simp
    then show ?thesis by blast
  next
    case False
    with Cons.prems x have o: "\<not> inode_too_old after c'"
      and r: "first_undeleted_copy after copies = (ui_journal_inode, Some c, Some s)"
      by (simp_all split: if_splits)
    from Cons.IH [OF r] obtain pre post where "copies = pre @ (s, c) # post" "dtime c = 0"
      "\<forall>sc\<in>set pre. dtime (snd sc) \<noteq> 0 \<and> \<not> inode_too_old after (snd sc)" by blast
    with False o x have "x # copies = (x # pre) @ (s, c) # post \<and> dtime c = 0 \<and>
        (\<forall>sc\<in>set (x # pre). dtime (snd sc) \<noteq> 0 \<and> \<not> inode_too_old after (snd sc))" by simp
    then show ?thesis by blast
  qed
qed

lemma copy_of_tag_unique: "copy_of_tag dev slot d sc \<Longrightarrow> copy_of_tag dev slot d sc' \<Longrightarrow> sc = sc'"
  by (auto simp: copy_of_tag_def split: option.splits)

lemma sorted_tags: "sorted_descriptors ds \<Longrightarrow> sorted (map M_sequence (tags_of blk ds))"
proof -
  assume "sorted_descriptors ds"
  then have "sorted (map M_sequence (concat (map (block_entries blk) ds)))"
    by (rule sorted_block_entries)
  then have "sorted (map M_sequence (filter (\<lambda>d. descriptor_type d = dt_tag) (concat (map (block_entries blk) ds))))"
    by (rule sorted_filter)
  then show ?thesis by (simp only: filter_tags_block_entries)
qed

lemma list_all2_in_left:
  "list_all2 P xs ys \<Longrightarrow> x \<in> set xs \<Longrightarrow> \<exists>y\<in>set ys. P x y"
  by (induction rule: list_all2_induct) auto

lemma journal_copy_is_newest_live:
  assumes "sorted_descriptors ds" "index_descriptors ds empty_index = Inr idx"
    and "get_inode tables n = Inr real_inode" "dtime real_inode \<noteq> 0"
    and "get_undeleted_inode tables dev idx after n = Inr (ui_journal_inode, Some c, Some s)"
  shows "\<exists>d\<in>set (tags_of (inode_to_block tables n) ds).
           copy_of_tag dev (n - block_to_inode tables (inode_to_block tables n)) d (s, c) \<and>
           dtime c = 0 \<and>
           (\<forall>d'\<in>set (tags_of (inode_to_block tables n) ds). M_sequence d < M_sequence d' \<longrightarrow>
              (\<exists>c'. copy_of_tag dev (n - block_to_inode tables (inode_to_block tables n)) d'
                      (M_sequence d', c') \<and> dtime c' \<noteq> 0 \<and> \<not> inode_too_old after c'))"
proof -
  let ?blk = "inode_to_block tables n"
  let ?slot = "n - block_to_inode tables ?blk"
  let ?R = "copy_of_tag dev ?slot"
  from assms(3,4,5) obtain copies where cp: "get_inodes_from_journal tables dev idx n = Inr copies"
    and f: "first_undeleted_copy after copies = (ui_journal_inode, Some c, Some s)"
    by (auto simp: get_undeleted_inode_def bind_result_def split: sum.splits)
  from first_undeleted_copy_journalD [OF f] obtain pre post where
    c: "copies = pre @ (s, c) # post" and live: "dtime c = 0"
    and pre: "\<forall>sc\<in>set pre. dtime (snd sc) \<noteq> 0 \<and> \<not> inode_too_old after (snd sc)" by blast
  from copies_shape [OF assms(2) cp] c
  have "list_all2 ?R (rev (tags_of ?blk ds)) (pre @ (s, c) # post)" by simp
  then obtain us vs where uv: "rev (tags_of ?blk ds) = us @ vs" and lu: "list_all2 ?R us pre"
    and lv: "list_all2 ?R vs ((s, c) # post)"
    by (auto simp: list_all2_append2)
  from lv obtain d vs' where vs: "vs = d # vs'" and rd: "?R d (s, c)" and lv': "list_all2 ?R vs' post"
    by (auto simp: list_all2_Cons2)
  from uv vs have t: "tags_of ?blk ds = rev vs' @ d # rev us"
    by (metis rev_append rev.simps(2) rev_rev_ident append_Cons append_Nil append_assoc)
  then have din: "d \<in> set (tags_of ?blk ds)" by simp
  have "sorted (map M_sequence (rev vs' @ d # rev us))"
    using sorted_tags [OF assms(1), of ?blk] t by simp
  then have low: "\<forall>x\<in>set vs'. M_sequence x \<le> M_sequence d"
    by (auto simp: sorted_append)
  have newer: "\<exists>c'. ?R d' (M_sequence d', c') \<and> dtime c' \<noteq> 0 \<and> \<not> inode_too_old after c'"
    if d': "d' \<in> set (tags_of ?blk ds)" and lt: "M_sequence d < M_sequence d'" for d'
  proof -
    from d' t have "d' \<in> set vs' \<or> d' = d \<or> d' \<in> set us" by auto
    with low lt have "d' \<in> set us" by auto
    from list_all2_in_left [OF lu this] obtain sc where sc: "sc \<in> set pre" "?R d' sc" by blast
    from sc(2) have "fst sc = M_sequence d'" by (auto simp: copy_of_tag_def split: option.splits)
    then have "sc = (M_sequence d', snd sc)" by (cases sc) simp
    with sc pre show ?thesis by metis
  qed
  from din rd live newer show ?thesis by blast
qed

lemma get_undeleted_inode_get_inode_error:
  "get_inode tables n = Inl e \<Longrightarrow> get_undeleted_inode tables dev idx after n = Inl e"
  by (simp add: get_undeleted_inode_def bind_result_def)

lemma get_undeleted_inode_real:
  "get_inode tables n = Inr real_inode \<Longrightarrow> dtime real_inode = 0 \<Longrightarrow>
   get_undeleted_inode tables dev idx after n = Inr (ui_real_inode, Some real_inode, None)"
  by (simp add: get_undeleted_inode_def bind_result_def)

lemma get_undeleted_inode_scan:
  "get_inode tables n = Inr real_inode \<Longrightarrow> dtime real_inode \<noteq> 0 \<Longrightarrow>
   get_undeleted_inode tables dev idx after n =
     bind_result (get_inodes_from_journal tables dev idx n)
       (\<lambda>inodes. Inr (first_undeleted_copy after inodes))"
  by (simp add: get_undeleted_inode_def bind_result_def)

text \<open>
  Claim C1, amended. \<open>get_undeleted_inode\<close> first reads the inode on disk through
  \<open>get_inode\<close>, and aborts when that aborts: inode 0 fails the assertion, an inode
  number below 1 never yields an inode, and an inode number of a loaded group yields the
  inode at its place in the table of the group. An inode on disk with \<open>dtime = 0\<close> is
  returned with kind \<open>ui_real_inode\<close>. Otherwise the copies that
  \<open>get_inodes_from_journal\<close> returns are gone through in their order: the first copy
  with \<open>dtime = 0\<close> is returned with kind \<open>ui_journal_inode\<close> and its sequence number,
  unless a copy before it is deleted and older than a non-zero \<open>--after\<close> value, where
  the scan stops with \<open>ui_inode_too_old\<close>; with neither, the result is \<open>ui_no_inode\<close>.
  On the index built from the descriptors, the copies are exactly the copies of the tags
  of the block of the inode, one for each tag, the last tag first, each with the sequence
  number of its tag and the inode at the slot in its journal block; they exist when each
  of these journal blocks can be read and holds the slot, and the scan aborts otherwise.
  When the descriptors are sorted, the sequence numbers of the copies descend,
  \<open>find_largest_journal_sequence_number\<close> of a block is the largest sequence number of
  the descriptors that refer to the block (0 when there is none), and a copy returned
  with kind \<open>ui_journal_inode\<close> is the copy of a tag such that every tag of the block
  with a larger sequence number has a deleted copy that is not older than \<open>--after\<close>.
  With two tags for one block at sequences 7 and 12 the largest sequence number is 12,
  and the copy of sequence 12 is looked at before the copy of sequence 7.
\<close>


theorem get_undeleted_inode_order_and_cutoff:
  "(get_inode tables n = Inl e \<longrightarrow> get_undeleted_inode tables dev idx after n = Inl e) \<and>
   (1 < inodes_per_group tables \<longrightarrow> get_inode tables 0 = Inl Assertion_failed) \<and>
   (n \<le> 0 \<and> 0 < inodes_per_group tables \<and> inodes_per_group tables \<le> 2 ^ 31 \<and>
    0 \<le> block_size tables \<and> block_size tables \<le> 2 ^ 28 \<longrightarrow>
      get_inode tables n = Inl Assertion_failed \<or> get_inode tables n = Inl Wild_pointer) \<and>
   (0 < n \<and> 0 < inodes_per_group tables \<and> inodes_per_group tables \<le> 8 * block_size tables \<and>
    8 * block_size tables < 2 ^ 32 \<and> (n - 1) div inodes_per_group tables < groups tables \<and>
    all_inodes tables ((n - 1) div inodes_per_group tables) = Some inodes \<and>
    length inodes = nat (inodes_per_group tables) \<longrightarrow>
      get_inode tables n = Inr (inodes ! nat ((n - 1) mod inodes_per_group tables))) \<and>
   (get_inode tables n = Inr real_inode \<and> dtime real_inode = 0 \<longrightarrow>
      get_undeleted_inode tables dev idx after n = Inr (ui_real_inode, Some real_inode, None)) \<and>
   (get_inode tables n = Inr real_inode \<and> dtime real_inode \<noteq> 0 \<and>
    get_inodes_from_journal tables dev idx n = Inl e \<longrightarrow>
      get_undeleted_inode tables dev idx after n = Inl e) \<and>
   (get_inode tables n = Inr real_inode \<and> dtime real_inode \<noteq> 0 \<and>
    get_inodes_from_journal tables dev idx n = Inr (pre @ (s, c) # post) \<and>
    (\<forall>sc\<in>set pre. dtime (snd sc) \<noteq> 0 \<and> \<not> inode_too_old after (snd sc)) \<and> dtime c = 0 \<longrightarrow>
      get_undeleted_inode tables dev idx after n = Inr (ui_journal_inode, Some c, Some s)) \<and>
   (get_inode tables n = Inr real_inode \<and> dtime real_inode \<noteq> 0 \<and>
    get_inodes_from_journal tables dev idx n = Inr (pre @ (s, c) # post) \<and>
    (\<forall>sc\<in>set pre. dtime (snd sc) \<noteq> 0 \<and> \<not> inode_too_old after (snd sc)) \<and>
    dtime c \<noteq> 0 \<and> inode_too_old after c \<longrightarrow>
      get_undeleted_inode tables dev idx after n = Inr (ui_inode_too_old, None, None)) \<and>
   (get_inode tables n = Inr real_inode \<and> dtime real_inode \<noteq> 0 \<and>
    get_inodes_from_journal tables dev idx n = Inr copies \<and>
    (\<forall>sc\<in>set copies. dtime (snd sc) \<noteq> 0 \<and> \<not> inode_too_old after (snd sc)) \<longrightarrow>
      get_undeleted_inode tables dev idx after n = Inr (ui_no_inode, None, None)) \<and>
   (index_descriptors ds empty_index = Inr idx \<and>
    get_inodes_from_journal tables dev idx n = Inr copies \<longrightarrow>
      list_all2 (copy_of_tag dev (n - block_to_inode tables (inode_to_block tables n)))
        (rev (tags_of (inode_to_block tables n) ds)) copies) \<and>
   (index_descriptors ds empty_index = Inr idx \<and>
    (\<forall>d\<in>set (tags_of (inode_to_block tables n) ds).
       \<exists>sc. copy_of_tag dev (n - block_to_inode tables (inode_to_block tables n)) d sc) \<longrightarrow>
      (\<exists>copies. get_inodes_from_journal tables dev idx n = Inr copies)) \<and>
   (index_descriptors ds empty_index = Inr idx \<and> d \<in> set (tags_of (inode_to_block tables n) ds) \<and>
    \<not> (\<exists>sc. copy_of_tag dev (n - block_to_inode tables (inode_to_block tables n)) d sc) \<longrightarrow>
      (\<exists>e. get_inodes_from_journal tables dev idx n = Inl e)) \<and>
   (sorted_descriptors ds \<and> index_descriptors ds empty_index = Inr idx \<and>
    get_inodes_from_journal tables dev idx n = Inr copies \<longrightarrow>
      sorted (rev (map fst copies))) \<and>
   (sorted_descriptors ds \<and> index_descriptors ds empty_index = Inr idx \<longrightarrow>
      find_largest_journal_sequence_number idx blk =
        Inr (if filter (references_block blk) ds = [] then 0
             else Max (set (map M_sequence (filter (references_block blk) ds))))) \<and>
   (sorted_descriptors ds \<and> index_descriptors ds empty_index = Inr idx \<and>
    d \<in> set ds \<and> descriptor_type d = dt_tag \<longrightarrow>
      (\<exists>q. find_largest_journal_sequence_number idx (M_blocknr d) = Inr q \<and> M_sequence d \<le> q)) \<and>
   (sorted_descriptors ds \<and> index_descriptors ds empty_index = Inr idx \<and>
    get_inode tables n = Inr real_inode \<and> dtime real_inode \<noteq> 0 \<and>
    get_undeleted_inode tables dev idx after n = Inr (ui_journal_inode, Some c, Some s) \<longrightarrow>
      (\<exists>d\<in>set (tags_of (inode_to_block tables n) ds).
         copy_of_tag dev (n - block_to_inode tables (inode_to_block tables n)) d (s, c) \<and>
         dtime c = 0 \<and>
         (\<forall>d'\<in>set (tags_of (inode_to_block tables n) ds). M_sequence d < M_sequence d' \<longrightarrow>
            (\<exists>c'. copy_of_tag dev (n - block_to_inode tables (inode_to_block tables n)) d'
                    (M_sequence d', c') \<and> dtime c' \<noteq> 0 \<and> \<not> inode_too_old after c'))))"
proof -
  have 1: "get_inode tables n = Inl e \<longrightarrow> get_undeleted_inode tables dev idx after n = Inl e"
    using get_undeleted_inode_get_inode_error by blast
  have 2: "1 < inodes_per_group tables \<longrightarrow> get_inode tables 0 = Inl Assertion_failed"
    using get_inode_zero by blast
  have 3: "n \<le> 0 \<and> 0 < inodes_per_group tables \<and> inodes_per_group tables \<le> 2 ^ 31 \<and>
    0 \<le> block_size tables \<and> block_size tables \<le> 2 ^ 28 \<longrightarrow>
      get_inode tables n = Inl Assertion_failed \<or> get_inode tables n = Inl Wild_pointer"
    using get_inode_not_positive [of n tables] by blast
  have 4: "0 < n \<and> 0 < inodes_per_group tables \<and> inodes_per_group tables \<le> 8 * block_size tables \<and>
    8 * block_size tables < 2 ^ 32 \<and> (n - 1) div inodes_per_group tables < groups tables \<and>
    all_inodes tables ((n - 1) div inodes_per_group tables) = Some inodes \<and>
    length inodes = nat (inodes_per_group tables) \<longrightarrow>
      get_inode tables n = Inr (inodes ! nat ((n - 1) mod inodes_per_group tables))"
    using get_inode_valid [of n tables inodes] by blast
  have 5: "get_inode tables n = Inr real_inode \<and> dtime real_inode = 0 \<longrightarrow>
      get_undeleted_inode tables dev idx after n = Inr (ui_real_inode, Some real_inode, None)"
    using get_undeleted_inode_real by blast
  have 6: "get_inode tables n = Inr real_inode \<and> dtime real_inode \<noteq> 0 \<and>
    get_inodes_from_journal tables dev idx n = Inl e \<longrightarrow>
      get_undeleted_inode tables dev idx after n = Inl e"
    by (simp add: get_undeleted_inode_scan bind_result_def)
  have 7: "get_inode tables n = Inr real_inode \<and> dtime real_inode \<noteq> 0 \<and>
    get_inodes_from_journal tables dev idx n = Inr (pre @ (s, c) # post) \<and>
    (\<forall>sc\<in>set pre. dtime (snd sc) \<noteq> 0 \<and> \<not> inode_too_old after (snd sc)) \<and> dtime c = 0 \<longrightarrow>
      get_undeleted_inode tables dev idx after n = Inr (ui_journal_inode, Some c, Some s)"
  proof
    assume a: "get_inode tables n = Inr real_inode \<and> dtime real_inode \<noteq> 0 \<and>
      get_inodes_from_journal tables dev idx n = Inr (pre @ (s, c) # post) \<and>
      (\<forall>sc\<in>set pre. dtime (snd sc) \<noteq> 0 \<and> \<not> inode_too_old after (snd sc)) \<and> dtime c = 0"
    then have "first_undeleted_copy after (pre @ (s, c) # post) = (ui_journal_inode, Some c, Some s)"
      by (intro first_undeleted_copy_found) simp_all
    with a show "get_undeleted_inode tables dev idx after n = Inr (ui_journal_inode, Some c, Some s)"
      by (simp add: get_undeleted_inode_scan bind_result_def)
  qed
  have 8: "get_inode tables n = Inr real_inode \<and> dtime real_inode \<noteq> 0 \<and>
    get_inodes_from_journal tables dev idx n = Inr (pre @ (s, c) # post) \<and>
    (\<forall>sc\<in>set pre. dtime (snd sc) \<noteq> 0 \<and> \<not> inode_too_old after (snd sc)) \<and>
    dtime c \<noteq> 0 \<and> inode_too_old after c \<longrightarrow>
      get_undeleted_inode tables dev idx after n = Inr (ui_inode_too_old, None, None)"
  proof
    assume a: "get_inode tables n = Inr real_inode \<and> dtime real_inode \<noteq> 0 \<and>
      get_inodes_from_journal tables dev idx n = Inr (pre @ (s, c) # post) \<and>
      (\<forall>sc\<in>set pre. dtime (snd sc) \<noteq> 0 \<and> \<not> inode_too_old after (snd sc)) \<and>
      dtime c \<noteq> 0 \<and> inode_too_old after c"
    then have "first_undeleted_copy after (pre @ (s, c) # post) = (ui_inode_too_old, None, None)"
      by (intro first_undeleted_copy_too_old) simp_all
    with a show "get_undeleted_inode tables dev idx after n = Inr (ui_inode_too_old, None, None)"
      by (simp add: get_undeleted_inode_scan bind_result_def)
  qed
  have 9: "get_inode tables n = Inr real_inode \<and> dtime real_inode \<noteq> 0 \<and>
    get_inodes_from_journal tables dev idx n = Inr copies \<and>
    (\<forall>sc\<in>set copies. dtime (snd sc) \<noteq> 0 \<and> \<not> inode_too_old after (snd sc)) \<longrightarrow>
      get_undeleted_inode tables dev idx after n = Inr (ui_no_inode, None, None)"
    by (simp add: get_undeleted_inode_scan bind_result_def first_undeleted_copy_none)
  have 10: "index_descriptors ds empty_index = Inr idx \<and>
    get_inodes_from_journal tables dev idx n = Inr copies \<longrightarrow>
      list_all2 (copy_of_tag dev (n - block_to_inode tables (inode_to_block tables n)))
        (rev (tags_of (inode_to_block tables n) ds)) copies"
    using copies_shape by blast
  have 11: "index_descriptors ds empty_index = Inr idx \<and>
    (\<forall>d\<in>set (tags_of (inode_to_block tables n) ds).
       \<exists>sc. copy_of_tag dev (n - block_to_inode tables (inode_to_block tables n)) d sc) \<longrightarrow>
      (\<exists>copies. get_inodes_from_journal tables dev idx n = Inr copies)"
    using copies_total [of ds idx tables n dev] by blast
  have 12: "index_descriptors ds empty_index = Inr idx \<and> d \<in> set (tags_of (inode_to_block tables n) ds) \<and>
    \<not> (\<exists>sc. copy_of_tag dev (n - block_to_inode tables (inode_to_block tables n)) d sc) \<longrightarrow>
      (\<exists>e. get_inodes_from_journal tables dev idx n = Inl e)"
    using copies_failure [of ds idx d tables n dev] by blast
  have 13: "sorted_descriptors ds \<and> index_descriptors ds empty_index = Inr idx \<and>
    get_inodes_from_journal tables dev idx n = Inr copies \<longrightarrow>
      sorted (rev (map fst copies))"
    using copies_descending by blast
  have 14: "sorted_descriptors ds \<and> index_descriptors ds empty_index = Inr idx \<longrightarrow>
      find_largest_journal_sequence_number idx blk =
        Inr (if filter (references_block blk) ds = [] then 0
             else Max (set (map M_sequence (filter (references_block blk) ds))))"
    using find_largest_exact_list by blast
  have 15: "sorted_descriptors ds \<and> index_descriptors ds empty_index = Inr idx \<and>
    d \<in> set ds \<and> descriptor_type d = dt_tag \<longrightarrow>
      (\<exists>q. find_largest_journal_sequence_number idx (M_blocknr d) = Inr q \<and> M_sequence d \<le> q)"
    using find_largest_bound by blast
  have 16: "sorted_descriptors ds \<and> index_descriptors ds empty_index = Inr idx \<and>
    get_inode tables n = Inr real_inode \<and> dtime real_inode \<noteq> 0 \<and>
    get_undeleted_inode tables dev idx after n = Inr (ui_journal_inode, Some c, Some s) \<longrightarrow>
      (\<exists>d\<in>set (tags_of (inode_to_block tables n) ds).
         copy_of_tag dev (n - block_to_inode tables (inode_to_block tables n)) d (s, c) \<and>
         dtime c = 0 \<and>
         (\<forall>d'\<in>set (tags_of (inode_to_block tables n) ds). M_sequence d < M_sequence d' \<longrightarrow>
            (\<exists>c'. copy_of_tag dev (n - block_to_inode tables (inode_to_block tables n)) d'
                    (M_sequence d', c') \<and> dtime c' \<noteq> 0 \<and> \<not> inode_too_old after c')))"
    using journal_copy_is_newest_live [of ds idx tables n real_inode dev after c s] by blast
  from 1 2 3 4 5 6 7 8 9 10 11 12 13 14 15 16 show ?thesis by (intro conjI)
qed

lemma two_tag_index_built: "index_descriptors [tag7, tag12] empty_index = Inr two_tag_index"
  by (simp add: index_descriptor_def transaction_of_def tag7_def tag12_def empty_index_def two_tag_index_def
     bind_result_def add_block_in_journal_descriptor_def add_block_descriptor_def Let_def)

lemma three_tag_index_built:
  "index_descriptors [tag7, tag12, tag15] empty_index = Inr three_tag_index"
  by (simp add: index_descriptor_def transaction_of_def tag7_def tag12_def tag15_def empty_index_def
     three_tag_index_def bind_result_def add_block_in_journal_descriptor_def
     add_block_descriptor_def Let_def)

lemma two_tag_copies:
  "get_inodes_from_journal journal_tables journal_device two_tag_index 18 =
     Inr [(12, dead_inode 0x81a4 100), (7, live_file)]"
  by (simp add: get_inodes_from_journal_def journal_tables_def two_tag_index_def tag7_def tag12_def
        journal_device_def no_device_def inode_block_def get_block_def bind_result_def Let_def)

lemma three_tag_copies:
  "get_inodes_from_journal journal_tables journal_device three_tag_index 18 =
     Inr [(15, dead_inode 0x81a4 250), (12, dead_inode 0x81a4 100), (7, live_file)]"
  by (simp add: get_inodes_from_journal_def journal_tables_def three_tag_index_def tag7_def tag12_def
        tag15_def journal_device_def no_device_def inode_block_def get_block_def bind_result_def Let_def)

lemma journal_tables_fields:
  "inodes_per_group journal_tables = 32" "block_size journal_tables = 1024"
  "groups journal_tables = 1" "inode_to_block journal_tables n = 50"
  "block_to_inode journal_tables b = 17"
  "all_inodes journal_tables 0 =
     Some (replicate 17 live_file @ dead_inode 0x81a4 300 # replicate 14 live_file)"
  by (simp_all add: journal_tables_def)

lemma on_disk_inodes:
  "(replicate 17 live_file @ dead_inode 0x81a4 300 # replicate 14 live_file) ! 16 = live_file"
  "(replicate 17 live_file @ dead_inode 0x81a4 300 # replicate 14 live_file) ! 17 = dead_inode 0x81a4 300"
  "length (replicate 17 live_file @ dead_inode 0x81a4 300 # replicate 14 live_file) = 32"
  by (simp_all add: nth_append)

lemma journal_tables_get_inode:
  "get_inode journal_tables 17 = Inr live_file"
  "get_inode journal_tables 18 = Inr (dead_inode 0x81a4 300)"
  using get_inode_valid [of 17 journal_tables "replicate 17 live_file @ dead_inode 0x81a4 300 # replicate 14 live_file"]
        get_inode_valid [of 18 journal_tables "replicate 17 live_file @ dead_inode 0x81a4 300 # replicate 14 live_file"]
  by (simp_all add: journal_tables_fields on_disk_inodes)

text \<open>
  Claim C1 as stated fails when \<open>--after\<close> is given: with the value 200, the copy of
  inode 18 in transaction 12 was deleted at time 100, which is older, so the scan returns
  \<open>ui_inode_too_old\<close> there and never reaches the copy of transaction 7, whose
  \<open>dtime\<close> is 0.
\<close>

theorem too_old_copy_hides_older_live_copy:
  "get_inode journal_tables 18 = Inr (dead_inode 0x81a4 300) \<and>
   dtime (dead_inode 0x81a4 300) \<noteq> 0 \<and>
   index_descriptors [tag7, tag12] empty_index = Inr two_tag_index \<and>
   get_inodes_from_journal journal_tables journal_device two_tag_index 18 =
     Inr [(12, dead_inode 0x81a4 100), (7, live_file)] \<and>
   dtime (dead_inode 0x81a4 100) \<noteq> 0 \<and> dtime live_file = 0 \<and>
   get_undeleted_inode journal_tables journal_device two_tag_index 200 18 =
     Inr (ui_inode_too_old, None, None)"
proof -
  have r: "dtime (dead_inode 0x81a4 300) \<noteq> 0"
    by (simp add: dead_inode_def)
  have o: "dtime (dead_inode 0x81a4 100) \<noteq> 0" "dtime live_file = 0"
    by (simp_all add: dead_inode_def live_file_def)
  have "first_undeleted_copy 200 [(12, dead_inode 0x81a4 100), (7, live_file)] =
      (ui_inode_too_old, None, None)"
    by (simp add: inode_too_old_def dead_inode_def)
  with r have u: "get_undeleted_inode journal_tables journal_device two_tag_index 200 18 =
     Inr (ui_inode_too_old, None, None)"
    by (simp add: get_undeleted_inode_def journal_tables_get_inode two_tag_copies bind_result_def)
  from journal_tables_get_inode(2) r o u two_tag_index_built two_tag_copies show ?thesis
    by (intro conjI)
qed

theorem get_undeleted_inode_order_and_cutoff_witness:
  "get_inode journal_tables 0 = Inl Assertion_failed \<and>
   get_undeleted_inode journal_tables journal_device three_tag_index 0 0 = Inl Assertion_failed \<and>
   get_inode journal_tables 17 = Inr live_file \<and> dtime live_file = 0 \<and>
   get_undeleted_inode journal_tables journal_device three_tag_index 0 17 =
     Inr (ui_real_inode, Some live_file, None) \<and>
   get_inode journal_tables 18 = Inr (dead_inode 0x81a4 300) \<and>
   dtime (dead_inode 0x81a4 300) \<noteq> 0 \<and>
   sorted_descriptors [tag7, tag12, tag15] \<and>
   index_descriptors [tag7, tag12, tag15] empty_index = Inr three_tag_index \<and>
   tags_of 50 [tag7, tag12, tag15] = [tag7, tag12, tag15] \<and>
   get_inodes_from_journal journal_tables journal_device three_tag_index 18 =
     Inr [(15, dead_inode 0x81a4 250), (12, dead_inode 0x81a4 100), (7, live_file)] \<and>
   list_all2 (copy_of_tag journal_device 1) [tag15, tag12, tag7]
     [(15, dead_inode 0x81a4 250), (12, dead_inode 0x81a4 100), (7, live_file)] \<and>
   sorted (rev (map fst [(15 :: 32 word, dead_inode 0x81a4 250), (12, dead_inode 0x81a4 100),
                         (7, live_file)])) \<and>
   get_undeleted_inode journal_tables journal_device three_tag_index 0 18 =
     Inr (ui_journal_inode, Some live_file, Some 7) \<and>
   get_undeleted_inode journal_tables journal_device three_tag_index 200 18 =
     Inr (ui_inode_too_old, None, None) \<and>
   find_largest_journal_sequence_number three_tag_index 50 = Inr 15 \<and>
   find_largest_journal_sequence_number three_tag_index 51 = Inr 0 \<and>
   sorted_descriptors [tag7, tag12] \<and>
   index_descriptors [tag7, tag12] empty_index = Inr two_tag_index \<and>
   find_largest_journal_sequence_number two_tag_index 50 = Inr 12 \<and>
   get_inodes_from_journal journal_tables journal_device two_tag_index 18 =
     Inr [(12, dead_inode 0x81a4 100), (7, live_file)]"
proof -
  have sd3: "sorted_descriptors [tag7, tag12, tag15]"
    by (simp add: sorted_descriptors_def AllDescriptorsPred_def tag7_def tag12_def tag15_def)
  have sd2: "sorted_descriptors [tag7, tag12]"
    by (simp add: sorted_descriptors_def AllDescriptorsPred_def tag7_def tag12_def)
  note ix3 = three_tag_index_built
  note ix2 = two_tag_index_built
  have tg: "tags_of 50 [tag7, tag12, tag15] = [tag7, tag12, tag15]"
    by (simp add: tags_of_def tag7_def tag12_def tag15_def)
  have dt: "dtime live_file = 0" "dtime (dead_inode 0x81a4 300) \<noteq> 0"
    "dtime (dead_inode 0x81a4 250) \<noteq> 0" "dtime (dead_inode 0x81a4 100) \<noteq> 0"
    by (simp_all add: live_file_def dead_inode_def)
  have g0: "get_inode journal_tables 0 = Inl Assertion_failed"
    using get_undeleted_inode_order_and_cutoff [where tables = journal_tables and dev = journal_device, THEN conjunct2, THEN conjunct1]
    by (simp add: journal_tables_fields)
  have u0: "get_undeleted_inode journal_tables journal_device three_tag_index 0 0 = Inl Assertion_failed"
    using get_undeleted_inode_order_and_cutoff
      [where tables = journal_tables and dev = journal_device and idx = three_tag_index and ds = "[tag7, tag12, tag15]" and n = 0 and e = Assertion_failed and after = 0, THEN conjunct1] g0
    by blast
  have g17: "get_inode journal_tables 17 = Inr live_file"
    using get_undeleted_inode_order_and_cutoff
      [where tables = journal_tables and dev = journal_device and n = 17 and inodes = "replicate 17 live_file @ dead_inode 0x81a4 300 # replicate 14 live_file", THEN conjunct2, THEN conjunct2, THEN conjunct2, THEN conjunct1]
    by (simp add: journal_tables_fields on_disk_inodes)
  have g18: "get_inode journal_tables 18 = Inr (dead_inode 0x81a4 300)"
    using get_undeleted_inode_order_and_cutoff
      [where tables = journal_tables and dev = journal_device and n = 18 and inodes = "replicate 17 live_file @ dead_inode 0x81a4 300 # replicate 14 live_file", THEN conjunct2, THEN conjunct2, THEN conjunct2, THEN conjunct1]
    by (simp add: journal_tables_fields on_disk_inodes)
  have u17: "get_undeleted_inode journal_tables journal_device three_tag_index 0 17 =
      Inr (ui_real_inode, Some live_file, None)"
    using get_undeleted_inode_order_and_cutoff
      [where tables = journal_tables and dev = journal_device and idx = three_tag_index and ds = "[tag7, tag12, tag15]" and n = 17 and real_inode = live_file and after = 0, THEN conjunct2, THEN conjunct2, THEN conjunct2, THEN conjunct2, THEN conjunct1] g17 dt
    by blast
  note cp3 = three_tag_copies
  have shape: "list_all2 (copy_of_tag journal_device 1) [tag15, tag12, tag7]
      [(15, dead_inode 0x81a4 250), (12, dead_inode 0x81a4 100), (7, live_file)]"
    using get_undeleted_inode_order_and_cutoff
      [where tables = journal_tables and dev = journal_device and idx = three_tag_index and ds = "[tag7, tag12, tag15]" and n = 18 and copies = "[(15, dead_inode 0x81a4 250), (12, dead_inode 0x81a4 100), (7, live_file)]", THEN conjunct2, THEN conjunct2, THEN conjunct2, THEN conjunct2, THEN conjunct2, THEN conjunct2, THEN conjunct2, THEN conjunct2, THEN conjunct2, THEN conjunct1] ix3 cp3
    by (simp add: journal_tables_fields tg)
  have desc: "sorted (rev (map fst [(15 :: 32 word, dead_inode 0x81a4 250),
      (12, dead_inode 0x81a4 100), (7, live_file)]))"
    using get_undeleted_inode_order_and_cutoff
      [where tables = journal_tables and dev = journal_device and idx = three_tag_index and ds = "[tag7, tag12, tag15]" and n = 18 and copies = "[(15, dead_inode 0x81a4 250), (12, dead_inode 0x81a4 100), (7, live_file)]", THEN conjunct2, THEN conjunct2, THEN conjunct2, THEN conjunct2, THEN conjunct2, THEN conjunct2, THEN conjunct2, THEN conjunct2, THEN conjunct2, THEN conjunct2, THEN conjunct2, THEN conjunct2, THEN conjunct1] sd3 ix3 cp3
    by blast
  have pre0: "\<forall>sc\<in>set [(15 :: 32 word, dead_inode 0x81a4 250), (12, dead_inode 0x81a4 100)].
      dtime (snd sc) \<noteq> 0 \<and> \<not> inode_too_old 0 (snd sc)"
    by (simp add: dead_inode_def inode_too_old_def)
  have cp3a: "get_inodes_from_journal journal_tables journal_device three_tag_index 18 =
      Inr ([(15, dead_inode 0x81a4 250), (12, dead_inode 0x81a4 100)] @ (7, live_file) # [])"
    using cp3 by simp
  have u18: "get_undeleted_inode journal_tables journal_device three_tag_index 0 18 =
      Inr (ui_journal_inode, Some live_file, Some 7)"
    using get_undeleted_inode_order_and_cutoff
      [where tables = journal_tables and dev = journal_device and idx = three_tag_index and ds = "[tag7, tag12, tag15]" and n = 18 and real_inode = "dead_inode 0x81a4 300" and after = 0
        and pre = "[(15, dead_inode 0x81a4 250), (12, dead_inode 0x81a4 100)]" and s = 7
        and c = live_file and post = "[]", THEN conjunct2, THEN conjunct2, THEN conjunct2, THEN conjunct2, THEN conjunct2, THEN conjunct2, THEN conjunct1] g18 dt cp3a pre0
    by blast
  have pre200: "\<forall>sc\<in>set [(15 :: 32 word, dead_inode 0x81a4 250)].
      dtime (snd sc) \<noteq> 0 \<and> \<not> inode_too_old 200 (snd sc)"
    by (simp add: dead_inode_def inode_too_old_def)
  have old: "inode_too_old 200 (dead_inode 0x81a4 100)"
    by (simp add: dead_inode_def inode_too_old_def)
  have cp3b: "get_inodes_from_journal journal_tables journal_device three_tag_index 18 =
      Inr ([(15, dead_inode 0x81a4 250)] @ (12, dead_inode 0x81a4 100) # [(7, live_file)])"
    using cp3 by simp
  have o18: "get_undeleted_inode journal_tables journal_device three_tag_index 200 18 =
      Inr (ui_inode_too_old, None, None)"
    using get_undeleted_inode_order_and_cutoff
      [where tables = journal_tables and dev = journal_device and idx = three_tag_index and ds = "[tag7, tag12, tag15]" and n = 18 and real_inode = "dead_inode 0x81a4 300" and after = 200
        and pre = "[(15, dead_inode 0x81a4 250)]" and s = 12
        and c = "dead_inode 0x81a4 100" and post = "[(7, live_file)]", THEN conjunct2, THEN conjunct2, THEN conjunct2, THEN conjunct2, THEN conjunct2, THEN conjunct2, THEN conjunct2, THEN conjunct1]
      g18 dt cp3b pre200 old
    by blast
  have "find_largest_journal_sequence_number three_tag_index 50 =
      Inr (if filter (references_block 50) [tag7, tag12, tag15] = [] then 0
           else Max (set (map M_sequence (filter (references_block 50) [tag7, tag12, tag15]))))"
    using get_undeleted_inode_order_and_cutoff [where tables = journal_tables and dev = journal_device and idx = three_tag_index and ds = "[tag7, tag12, tag15]" and blk = 50, THEN conjunct2, THEN conjunct2, THEN conjunct2, THEN conjunct2, THEN conjunct2, THEN conjunct2, THEN conjunct2, THEN conjunct2, THEN conjunct2, THEN conjunct2, THEN conjunct2, THEN conjunct2, THEN conjunct2, THEN conjunct1] sd3 ix3
    by blast
  then have f50: "find_largest_journal_sequence_number three_tag_index 50 = Inr 15"
    by (simp add: tag7_def tag12_def tag15_def)
  have "find_largest_journal_sequence_number three_tag_index 51 =
      Inr (if filter (references_block 51) [tag7, tag12, tag15] = [] then 0
           else Max (set (map M_sequence (filter (references_block 51) [tag7, tag12, tag15]))))"
    using get_undeleted_inode_order_and_cutoff [where tables = journal_tables and dev = journal_device and idx = three_tag_index and ds = "[tag7, tag12, tag15]" and blk = 51, THEN conjunct2, THEN conjunct2, THEN conjunct2, THEN conjunct2, THEN conjunct2, THEN conjunct2, THEN conjunct2, THEN conjunct2, THEN conjunct2, THEN conjunct2, THEN conjunct2, THEN conjunct2, THEN conjunct2, THEN conjunct1] sd3 ix3
    by blast
  then have f51: "find_largest_journal_sequence_number three_tag_index 51 = Inr 0"
    by (simp add: tag7_def tag12_def tag15_def)
  have "find_largest_journal_sequence_number two_tag_index 50 =
      Inr (if filter (references_block 50) [tag7, tag12] = [] then 0
           else Max (set (map M_sequence (filter (references_block 50) [tag7, tag12]))))"
    using get_undeleted_inode_order_and_cutoff [where tables = journal_tables and dev = journal_device and idx = two_tag_index and ds = "[tag7, tag12]" and blk = 50, THEN conjunct2, THEN conjunct2, THEN conjunct2, THEN conjunct2, THEN conjunct2, THEN conjunct2, THEN conjunct2, THEN conjunct2, THEN conjunct2, THEN conjunct2, THEN conjunct2, THEN conjunct2, THEN conjunct2, THEN conjunct1] sd2 ix2
    by blast
  then have f2: "find_largest_journal_sequence_number two_tag_index 50 = Inr 12"
    by (simp add: tag7_def tag12_def)
  from g0 u0 g17 dt(1) u17 g18 dt(2) sd3 ix3 tg cp3 shape desc u18 o18 f50 f51 sd2 ix2 f2
    two_tag_copies
  show ?thesis by (intro conjI)
qed

end
